theory Spec2Isabelle
  imports Complex_Main "HOL-Library.Multiset"
begin

section \<open>Errors\<close>

text \<open>
  Every exception the module \<^verbatim>\<open>supervoxel_affinity_3d.py\<close> can raise is a value.
  \<open>IndexError\<close>: an index past the end of a tuple, a list or an array axis.
  \<open>AssertionError\<close>: a failed \<^verbatim>\<open>assert\<close>.  \<open>NameError\<close>: a name that is
  bound neither locally nor at module level.  \<open>TypeError\<close>: subscripting an object
  that is not an array.  \<open>RuntimeError\<close>: torch refusing to broadcast two tensors.
  \<open>ValueError\<close>: numpy refusing to broadcast into the left-hand side of an in-place
  operation.  \<open>WorkerError\<close>: an exception raised inside an external collaborator
  (the watershed, the critical detector or the criterion).
\<close>

datatype error =
    IndexError
  | AssertionError
  | NameError string
  | TypeError
  | RuntimeError
  | ValueError
  | WorkerError

definition ebind :: "error + 'a \<Rightarrow> ('a \<Rightarrow> error + 'b) \<Rightarrow> error + 'b" where
  "ebind m f = (case m of Inl e \<Rightarrow> Inl e | Inr v \<Rightarrow> f v)"

definition py_nth :: "'a list \<Rightarrow> nat \<Rightarrow> error + 'a" where
  \<comment> \<open>\<^verbatim>\<open>xs[k]\<close> for a literal index \<open>k \<ge> 0\<close> on a tuple, list or 1-D array\<close>
  "py_nth xs k = (if k < length xs then Inr (xs ! k) else Inl IndexError)"

section \<open>Tensors\<close>

text \<open>
  A torch tensor or numpy array is its shape and its elements in row-major order.
  \<open>indices s\<close> lists the multi-indices of shape \<open>s\<close> in that order; element access
  goes through \<open>lookup\<close>, which is \<open>None\<close> outside the shape.
\<close>

record 'a tensor =
  shape :: "nat list"
  entries :: "'a list"

definition indices :: "nat list \<Rightarrow> nat list list" where
  "indices s = product_lists (map (\<lambda>n. [0..<n]) s)"

definition wf_tensor :: "'a tensor \<Rightarrow> bool" where
  "wf_tensor t = (length (entries t) = length (indices (shape t)))"

definition lookup :: "'a tensor \<Rightarrow> nat list \<Rightarrow> 'a option" where
  "lookup t idx = map_of (zip (indices (shape t)) (entries t)) idx"

definition mk_tensor :: "nat list \<Rightarrow> (nat list \<Rightarrow> 'a) \<Rightarrow> 'a tensor" where
  "mk_tensor s f = \<lparr>shape = s, entries = map f (indices s)\<rparr>"

definition build :: "nat list \<Rightarrow> (nat list \<Rightarrow> 'a option) \<Rightarrow> error + 'a tensor" where
  \<comment> \<open>the tensor of shape \<open>s\<close> whose element at \<open>idx\<close> is \<open>f idx\<close>; an element that
      cannot be read (\<open>None\<close>) is an IndexError\<close>
  "build s f =
     (case those (map f (indices s)) of
        None \<Rightarrow> Inl IndexError
      | Some vs \<Rightarrow> Inr \<lparr>shape = s, entries = vs\<rparr>)"

definition gather :: "nat list \<Rightarrow> (nat list \<Rightarrow> nat list) \<Rightarrow> 'a tensor \<Rightarrow> error + 'a tensor" where
  \<comment> \<open>the tensor of shape \<open>s\<close> whose element at \<open>idx\<close> is read from \<open>t\<close> at \<open>g idx\<close>\<close>
  "gather s g t = build s (\<lambda>idx. lookup t (g idx))"

definition tensor_map :: "('a \<Rightarrow> 'b) \<Rightarrow> 'a tensor \<Rightarrow> 'b tensor" where
  "tensor_map f t = \<lparr>shape = shape t, entries = map f (entries t)\<rparr>"

subsection \<open>Broadcasting\<close>

fun bshape_rev :: "nat list \<Rightarrow> nat list \<Rightarrow> nat list option" where
  "bshape_rev [] ys = Some ys"
| "bshape_rev (x # xs) [] = Some (x # xs)"
| "bshape_rev (x # xs) (y # ys) =
     (if x = y \<or> y = 1 then map_option ((#) x) (bshape_rev xs ys)
      else if x = 1 then map_option ((#) y) (bshape_rev xs ys)
      else None)"

definition broadcast_shapes :: "nat list \<Rightarrow> nat list \<Rightarrow> nat list option" where
  \<comment> \<open>shapes are aligned at their last axis; two lengths agree when equal or one is 1\<close>
  "broadcast_shapes a b = map_option rev (bshape_rev (rev a) (rev b))"

definition bidx :: "nat list \<Rightarrow> nat list \<Rightarrow> nat list" where
  \<comment> \<open>where an operand of shape \<open>s\<close> is read for the result's index \<open>idx\<close>\<close>
  "bidx s idx =
     map2 (\<lambda>d i. if d = 1 then 0 else i) s (drop (length idx - length s) idx)"

definition broadcast_to :: "nat list \<Rightarrow> 'a tensor \<Rightarrow> error + 'a tensor" where
  "broadcast_to s t = gather s (bidx (shape t)) t"

definition tensor_binop ::
  "('a \<Rightarrow> 'b \<Rightarrow> 'c) \<Rightarrow> 'a tensor \<Rightarrow> 'b tensor \<Rightarrow> error + 'c tensor" where
  \<comment> \<open>an element-wise torch operation on two tensors, with broadcasting\<close>
  "tensor_binop f a b =
     (case broadcast_shapes (shape a) (shape b) of
        None \<Rightarrow> Inl RuntimeError
      | Some s \<Rightarrow>
          ebind (broadcast_to s a) (\<lambda>a'.
          ebind (broadcast_to s b) (\<lambda>b'.
            Inr \<lparr>shape = s, entries = map2 f (entries a') (entries b')\<rparr>)))"

subsection \<open>Slicing\<close>

definition slice_bounds :: "nat \<Rightarrow> int \<Rightarrow> int \<Rightarrow> nat \<times> nat" where
  \<comment> \<open>Python's \<^verbatim>\<open>lo:hi\<close> on an axis of length \<open>n\<close>: a negative bound counts from the
      end, both are clamped to \<open>0..n\<close>; the result is (start, length)\<close>
  "slice_bounds n lo hi =
     (let norm = (\<lambda>v. if v < 0 then max (v + int n) 0 else min v (int n));
          start = norm lo; stop = norm hi
      in (nat start, nat (stop - start)))"

definition shift_last :: "nat \<Rightarrow> nat list \<Rightarrow> nat list \<Rightarrow> nat list" where
  \<comment> \<open>the index \<open>idx\<close> with \<open>starts\<close> added to its components after the first \<open>r\<close>\<close>
  "shift_last r starts idx = take r idx @ map2 (+) starts (drop r idx)"

definition slice_last3 :: "'a tensor \<Rightarrow> (int \<times> int) list \<Rightarrow> error + 'a tensor" where
  \<comment> \<open>\<^verbatim>\<open>t[..., lo0:hi0, lo1:hi1, lo2:hi2]\<close>\<close>
  "slice_last3 t bnds =
     (let r = length (shape t) in
      if r < 3 \<or> length bnds \<noteq> 3 then Inl IndexError
      else
        let lead = take (r - 3) (shape t);
            sb = map2 (\<lambda>n (lo, hi). slice_bounds n lo hi) (drop (r - 3) (shape t)) bnds
        in gather (lead @ map snd sb) (shift_last (r - 3) (map fst sb)) t)"

section \<open>Pairwise affinities: \<^verbatim>\<open>get_pair\<close> and \<^verbatim>\<open>get_aff\<close>\<close>

text \<open>
  \<^verbatim>\<open>get_pair\<close> (lines 390-428) reads \<^verbatim>\<open>shape = labels.size()[-3:]\<close>, turns the edge into
  \<^verbatim>\<open>offset1 = np.maximum(edge, 0)\<close> and \<^verbatim>\<open>offset2 = np.maximum(-edge, 0)\<close>, and slices
  the last three axes twice.  Neither it nor \<^verbatim>\<open>get_aff\<close> (lines 367-387) checks the rank
  of \<^verbatim>\<open>labels\<close> or the size of the edge: what fails is a subscript on a short tuple,
  and an out-of-range slice bound is clamped as Python does.

  \<^verbatim>\<open>edge = np.array(edge)\<close> (line 412) is an array of 64-bit integers, and
  \<^verbatim>\<open>-edge\<close> is computed in that width.  The model takes the components of the edge as
  integers and does not wrap.  The two agree for the edges with \<open>\<bar>e\<bar> < 2 ^ 63\<close>: the array
  holds the components themselves, the negation does not overflow, and the slice bounds
  \<^verbatim>\<open>shape[k] - offset[k]\<close> stay within 64 bits.  Outside this range the source does
  something else (the array is no longer of 64-bit integers, and \<open>- 2 ^ 63\<close> is its own
  negation), which is not modelled: a statement about offsets of any size carries the
  bound \<open>\<bar>e\<bar> < 2 ^ 63\<close> as a hypothesis.  An offset that fits the volume,
  \<open>\<bar>e\<bar> \<le> n\<close>, is within the bound for every volume that can be stored.
\<close>

definition axis_slice :: "int list \<Rightarrow> nat list \<Rightarrow> int list \<Rightarrow> nat \<Rightarrow> error + (int \<times> int)" where
  \<comment> \<open>the slice expression \<^verbatim>\<open>lo[k]: shape[k] - hi[k]\<close>, its subscripts read left to right\<close>
  "axis_slice lo shp hi k =
     ebind (py_nth lo k) (\<lambda>a.
     ebind (py_nth shp k) (\<lambda>n.
     ebind (py_nth hi k) (\<lambda>b. Inr (a, int n - b))))"

definition window3 :: "'a tensor \<Rightarrow> nat list \<Rightarrow> int list \<Rightarrow> int list \<Rightarrow> error + 'a tensor" where
  \<comment> \<open>\<^verbatim>\<open>t[..., lo[0]: shape[0] - hi[0], lo[1]: shape[1] - hi[1], lo[2]: shape[2] - hi[2]]\<close>\<close>
  "window3 t shp lo hi =
     ebind (axis_slice lo shp hi 0) (\<lambda>s0.
     ebind (axis_slice lo shp hi 1) (\<lambda>s1.
     ebind (axis_slice lo shp hi 2) (\<lambda>s2.
       slice_last3 t [s0, s1, s2])))"

definition last3 :: "'a list \<Rightarrow> 'a list" where
  \<comment> \<open>\<^verbatim>\<open>xs[-3:]\<close>\<close>
  "last3 xs = drop (length xs - 3) xs"

definition get_pair :: "'a tensor \<Rightarrow> int list \<Rightarrow> error + ('a tensor \<times> 'a tensor)" where
  "get_pair labels edge =
     (let shp = last3 (shape labels);
          offset1 = map (\<lambda>e. max e 0) edge;
          offset2 = map (\<lambda>e. max (- e) 0) edge
      in ebind (window3 labels shp offset1 offset2) (\<lambda>labels1.
         ebind (window3 labels shp offset2 offset1) (\<lambda>labels2.
           Inr (labels1, labels2))))"

definition get_aff :: "('a::zero_neq_one) tensor \<Rightarrow> int list \<Rightarrow> error + 'a tensor" where
  \<comment> \<open>\<^verbatim>\<open>ret = (o1 == o2) & (o1 != 0)\<close>, then \<^verbatim>\<open>ret.type(labels.type())\<close>: True is 1, False is 0\<close>
  "get_aff labels edge =
     ebind (get_pair labels edge) (\<lambda>(o1, o2).
     ebind (tensor_binop (=) o1 o2) (\<lambda>eq.
     ebind (tensor_binop (\<and>) eq (tensor_map (\<lambda>v. v \<noteq> 0) o1)) (\<lambda>ret.
       Inr (tensor_map (\<lambda>b. if b then 1 else 0) ret))))"

section \<open>The decoder: \<^verbatim>\<open>get_pair_first\<close> and \<^verbatim>\<open>Decoder.forward\<close>\<close>

text \<open>
  \<^verbatim>\<open>get_pair_first\<close> (lines 431-459) subscripts the name \<^verbatim>\<open>arr\<close>.  The function assigns
  \<^verbatim>\<open>shape\<close>, \<^verbatim>\<open>edge\<close>, \<^verbatim>\<open>offset1\<close>, \<^verbatim>\<open>offset2\<close> and \<^verbatim>\<open>ret\<close> and has the
  parameters \<^verbatim>\<open>labels\<close> and \<^verbatim>\<open>edge\<close>, so \<^verbatim>\<open>arr\<close> is read from the module's
  global names (it is no Python builtin).  \<open>module_globals\<close> lists every name the module
  binds: its imports, its class and its functions.
\<close>

definition module_globals :: "string list" where
  "module_globals =
     [''ProcessPoolExecutor'', ''as_completed'', ''Variable'', ''run_watershed'', ''np'',
      ''torch'', ''nn'', ''detect_critical'', ''SuperVoxelAffinity'', ''toCPU'',
      ''get_critical_mask'', ''get_aff'', ''get_pair'', ''get_pair_first'']"

definition load_global :: "string \<Rightarrow> error + 'a tensor" where
  \<comment> \<open>a global name read in order to subscript it: an unbound name is a NameError, and
      every bound one is a module, a class or a function, which cannot be subscripted\<close>
  "load_global x = (if x \<in> set module_globals then Inl TypeError else Inl (NameError x))"

definition get_pair_first :: "'a tensor \<Rightarrow> int list \<Rightarrow> error + 'a tensor" where
  "get_pair_first labels edge =
     (let shp = last3 (shape labels);
          offset1 = map (\<lambda>e. max e 0) edge;
          offset2 = map (\<lambda>e. max (- e) 0) edge
      in ebind (load_global ''arr'') (\<lambda>arr. window3 arr shp offset1 offset2))"

definition select_channel :: "'a tensor \<Rightarrow> nat \<Rightarrow> error + 'a tensor" where
  \<comment> \<open>\<^verbatim>\<open>x[..., [i], :, :, :]\<close>: the axis fourth from the end keeps length 1\<close>
  "select_channel x i =
     (let r = length (shape x) in
      if r < 4 then Inl IndexError
      else if shape x ! (r - 4) \<le> i then Inl IndexError
      else gather (take (r - 4) (shape x) @ 1 # drop (r - 3) (shape x))
             (\<lambda>idx. take (r - 4) idx @ i # drop (r - 3) idx) x)"

definition Decoder_forward :: "int list list \<Rightarrow> 'a tensor \<Rightarrow> int \<Rightarrow> error + 'a tensor" where
  \<comment> \<open>lines 285-307: \<^verbatim>\<open>x.size(-4)\<close>, the two assertions, then
      \<^verbatim>\<open>get_pair_first(x[..., [i], :, :, :], self.edges[i])\<close>\<close>
  "Decoder_forward edges x i =
     (let r = length (shape x) in
      if r < 4 then Inl IndexError
      else
        let num_channels = shape x ! (r - 4) in
        if num_channels \<noteq> length edges then Inl AssertionError
        else if \<not> (i < int num_channels \<and> i \<ge> 0) then Inl AssertionError
        else ebind (select_channel x (nat i)) (\<lambda>xi.
             ebind (py_nth edges (nat i)) (\<lambda>edge.
               get_pair_first xi edge)))"

section \<open>Critical masks: \<^verbatim>\<open>get_critical_masks\<close>\<close>

text \<open>
  Numbers are real numbers: the rounding of float32 and float64 is not modelled.
  The collaborators that are not part of this module are parameters: the first label
  volume the watershed yields, the critical detector, the criterion, and the order in
  which \<^verbatim>\<open>as_completed\<close> hands back the futures.

  \<^verbatim>\<open>get_critical_masks\<close> (lines 192-239) allocates \<^verbatim>\<open>masks\<close> from \<^verbatim>\<open>preds[0].shape\<close>,
  submits for every \<open>i\<close> the calls
  \<^verbatim>\<open>get_critical_mask(targets[i, 0, ...], preds[i], i, -1)\<close> and
  \<^verbatim>\<open>get_critical_mask(preds[i], targets[i, 0, ...], i, 1)\<close>, and folds the results, in
  the order they complete, into \<^verbatim>\<open>masks\<close> and \<^verbatim>\<open>stats\<close>.  A \<open>task\<close> holds the
  arguments of one submitted call, an \<open>analysis\<close> the tuple
  \<^verbatim>\<open>(process_id, mask, n_criticals, critical_type)\<close> that \<^verbatim>\<open>get_critical_mask\<close> (lines
  338-364) returns.  The array \<^verbatim>\<open>np.array(targets, dtype=int)\<close> is the integer tensor
  \<open>targets\<close> itself.
\<close>

record task =
  task_target :: "int tensor"
  task_pred :: "int tensor"
  task_id :: nat
  task_type :: int

type_synonym analysis = "nat \<times> real tensor \<times> int \<times> int"

record stats =
  Splits :: real
  Merges :: real

record collaborators =
  run_watershed :: "real tensor \<Rightarrow> error + int tensor"
  detect_critical :: "int tensor \<Rightarrow> int tensor \<Rightarrow> error + (real tensor \<times> int)"
  as_completed :: "(error + analysis) list \<Rightarrow> (error + analysis) list"

record loss_module =
  edges :: "int list list"
  alpha :: real
  beta :: real
  threshold :: real
  criterion :: "real tensor \<Rightarrow> real tensor \<Rightarrow> error + real tensor"

definition get_critical_mask ::
  "(int tensor \<Rightarrow> int tensor \<Rightarrow> error + (real tensor \<times> int)) \<Rightarrow>
   int tensor \<Rightarrow> int tensor \<Rightarrow> nat \<Rightarrow> int \<Rightarrow> error + analysis" where
  "get_critical_mask detect target pred process_id critical_type =
     ebind (detect target pred) (\<lambda>(mask, n_criticals).
       Inr (process_id, mask, n_criticals, critical_type))"

definition run_task ::
  "(int tensor \<Rightarrow> int tensor \<Rightarrow> error + (real tensor \<times> int)) \<Rightarrow> task \<Rightarrow> error + analysis" where
  \<comment> \<open>what the future of a submitted call holds\<close>
  "run_task detect tk =
     get_critical_mask detect (task_target tk) (task_pred tk) (task_id tk) (task_type tk)"

definition row :: "'a tensor \<Rightarrow> nat \<Rightarrow> error + 'a tensor" where
  \<comment> \<open>\<^verbatim>\<open>t[i, ...]\<close>\<close>
  "row t i =
     (case shape t of
        [] \<Rightarrow> Inl IndexError
      | n # s \<Rightarrow> if i < n then gather s ((#) i) t else Inl IndexError)"

definition index2 :: "'a tensor \<Rightarrow> nat \<Rightarrow> nat \<Rightarrow> error + 'a tensor" where
  \<comment> \<open>\<^verbatim>\<open>t[i, c, ...]\<close>\<close>
  "index2 t i c =
     (case shape t of
        n0 # n1 # s \<Rightarrow>
          if i < n0 \<and> c < n1 then gather s (\<lambda>idx. i # c # idx) t else Inl IndexError
      | _ \<Rightarrow> Inl IndexError)"

definition row_iadd :: "real tensor \<Rightarrow> nat \<Rightarrow> real tensor \<Rightarrow> error + real tensor" where
  \<comment> \<open>\<^verbatim>\<open>masks[i, ...] += v\<close>: \<open>v\<close> is broadcast to the row's shape and added in place\<close>
  "row_iadd masks i v =
     ebind (row masks i) (\<lambda>view.
       case broadcast_shapes (shape view) (shape v) of
         None \<Rightarrow> Inl ValueError
       | Some s \<Rightarrow>
           if s \<noteq> shape view then Inl ValueError
           else ebind (broadcast_to s v) (\<lambda>v'.
             build (shape masks) (\<lambda>idx.
               case idx of
                 [] \<Rightarrow> None
               | k # rest \<Rightarrow>
                   if k = i then
                     (case (lookup view rest, lookup v' rest) of
                        (Some a, Some b) \<Rightarrow> Some (a + b)
                      | _ \<Rightarrow> None)
                   else lookup masks idx)))"

fun submit_loop :: "int tensor \<Rightarrow> (nat \<times> int tensor) list \<Rightarrow> task list \<Rightarrow> task list \<times> error option" where
  "submit_loop targets [] processes = (processes, None)"
| "submit_loop targets ((i, pred_i) # rest) processes =
     (case index2 targets i 0 of
        Inl e \<Rightarrow> (processes, Some e)
      | Inr target_i \<Rightarrow>
          submit_loop targets rest
            (processes @
             [\<lparr>task_target = target_i, task_pred = pred_i, task_id = i, task_type = - 1\<rparr>,
              \<lparr>task_target = pred_i, task_pred = target_i, task_id = i, task_type = 1\<rparr>]))"

text \<open>
  The body of the loop over \<^verbatim>\<open>as_completed(processes)\<close>, and the loop;
  \<^verbatim>\<open>process.result()\<close> raises what the worker raised.
\<close>

definition collect_step :: "real \<Rightarrow> nat \<Rightarrow> real tensor \<times> stats \<Rightarrow> analysis \<Rightarrow> error + (real tensor \<times> stats)" where
  "collect_step b len_preds st res =
     (case (st, res) of ((masks, stats), (i, mask_i, n_criticals, crtitical_type)) \<Rightarrow>
        if crtitical_type = - 1 then
          ebind (row_iadd masks i (tensor_map ((*) b) mask_i)) (\<lambda>masks'.
            Inr (masks', stats\<lparr>Splits := Splits stats + real_of_int n_criticals / real len_preds\<rparr>))
        else
          ebind (row_iadd masks i (tensor_map ((*) (1 - b)) mask_i)) (\<lambda>masks'.
            Inr (masks', stats\<lparr>Merges := Merges stats + real_of_int n_criticals / real len_preds\<rparr>)))"

fun collect :: "real \<Rightarrow> nat \<Rightarrow> real tensor \<times> stats \<Rightarrow> (error + analysis) list \<Rightarrow> error + (real tensor \<times> stats)" where
  "collect b len_preds st [] = Inr st"
| "collect b len_preds st (process # rest) =
     (case process of
        Inl e \<Rightarrow> Inl e
      | Inr res \<Rightarrow> ebind (collect_step b len_preds st res) (\<lambda>st'. collect b len_preds st' rest))"

definition toGPU :: "real tensor \<Rightarrow> real tensor" where
  \<comment> \<open>the assignment \<^verbatim>\<open>arr[np.newaxis, ...] = arr\<close> writes \<open>arr\<close> onto itself, and the
      conversion to a float32 tensor keeps every real number\<close>
  "toGPU arr = arr"

definition get_critical_masks ::
  "loss_module \<Rightarrow> collaborators \<Rightarrow> int tensor list \<Rightarrow> int tensor \<Rightarrow>
   task list \<times> (error + real tensor \<times> stats)" where
  \<comment> \<open>the first component lists the calls submitted to the executor, in submission order\<close>
  "get_critical_masks self col preds targets =
     (case preds of
        [] \<Rightarrow> ([], Inl IndexError)
      | pred0 # _ \<Rightarrow>
          (let stats = \<lparr>Splits = 0, Merges = 0\<rparr>;
               masks = mk_tensor (length preds # shape pred0) (\<lambda>_. 0)
           in (case submit_loop targets (enumerate 0 preds) [] of
                 (processes, Some e) \<Rightarrow> (processes, Inl e)
               | (processes, None) \<Rightarrow>
                   (processes,
                    ebind (collect (beta self) (length preds) (masks, stats)
                             (as_completed col (map (run_task (detect_critical col)) processes)))
                      (\<lambda>(masks', stats'). Inr (toGPU masks', stats'))))))"

section \<open>The loss: \<^verbatim>\<open>forward\<close>\<close>

text \<open>
  \<^verbatim>\<open>forward\<close> (lines 88-132) decodes the predicted labels (\<^verbatim>\<open>get_pred_labels\<close>,
  \<^verbatim>\<open>to_labels\<close>, \<^verbatim>\<open>binarize\<close>), computes the critical masks, and sums over every example
  \<open>i\<close> and every edge \<open>j\<close> the mean of \<^verbatim>\<open>(1 - alpha) * loss_j + alpha * mask_aff_j * loss_j\<close>.
  The running loss is a real number or NaN (\<open>None\<close>).  \<^verbatim>\<open>target_labels\<close> is an integer
  tensor; \<^verbatim>\<open>toGPU\<close> makes its rows float tensors.
\<close>

definition binarize :: "real \<Rightarrow> real tensor \<Rightarrow> real tensor" where
  "binarize thr pred = tensor_map (\<lambda>v. if v > thr then 1 else 0) pred"

definition to_labels :: "loss_module \<Rightarrow> collaborators \<Rightarrow> real tensor \<Rightarrow> error + int tensor" where
  "to_labels self col pred_affs_i = run_watershed col (binarize (threshold self) pred_affs_i)"

fun get_pred_labels_loop ::
  "loss_module \<Rightarrow> collaborators \<Rightarrow> real tensor \<Rightarrow> nat list \<Rightarrow> int tensor list \<Rightarrow> error + int tensor list" where
  "get_pred_labels_loop self col pred_affs [] pred_labels = Inr pred_labels"
| "get_pred_labels_loop self col pred_affs (i # rest) pred_labels =
     ebind (row pred_affs i) (\<lambda>pred_affs_i.
     ebind (to_labels self col pred_affs_i) (\<lambda>labels_i.
       get_pred_labels_loop self col pred_affs rest (pred_labels @ [labels_i])))"

definition get_pred_labels :: "loss_module \<Rightarrow> collaborators \<Rightarrow> real tensor \<Rightarrow> error + int tensor list" where
  "get_pred_labels self col pred_affs =
     (case shape pred_affs of
        [] \<Rightarrow> Inl IndexError
      | n # _ \<Rightarrow> get_pred_labels_loop self col pred_affs [0..<n] [])"

definition tensor_mean :: "real tensor \<Rightarrow> real option" where
  \<comment> \<open>\<open>None\<close> is NaN, the mean torch gives for a tensor with no element\<close>
  "tensor_mean t =
     (if entries t = [] then None else Some (sum_list (entries t) / real (length (entries t))))"

definition add_loss :: "real option \<Rightarrow> real option \<Rightarrow> real option" where
  "add_loss a b = (case (a, b) of (Some x, Some y) \<Rightarrow> Some (x + y) | _ \<Rightarrow> None)"

definition edge_term ::
  "loss_module \<Rightarrow> real tensor \<Rightarrow> real tensor \<Rightarrow> real tensor \<Rightarrow> error + real option" where
  \<comment> \<open>\<^verbatim>\<open>loss_j\<close>, \<^verbatim>\<open>term_1\<close>, \<^verbatim>\<open>term_2\<close> and \<^verbatim>\<open>(term_1 + term_2).mean()\<close>\<close>
  "edge_term self pred_affs_j target_affs_j mask_aff_j =
     ebind (criterion self pred_affs_j target_affs_j) (\<lambda>loss_j.
       let term_1 = tensor_map ((*) (1 - alpha self)) loss_j in
       ebind (tensor_binop (*) (tensor_map ((*) (alpha self)) mask_aff_j) loss_j) (\<lambda>term_2.
       ebind (tensor_binop (+) term_1 term_2) (\<lambda>total.
         Inr (tensor_mean total))))"

fun edge_loop ::
  "loss_module \<Rightarrow> real tensor \<Rightarrow> nat \<Rightarrow> real tensor \<Rightarrow> real tensor \<Rightarrow>
   (nat \<times> int list) list \<Rightarrow> real option \<Rightarrow> error + real option" where
  "edge_loop self pred_affs i target_labels_i mask_i [] loss = Inr loss"
| "edge_loop self pred_affs i target_labels_i mask_i ((j, edge) # rest) loss =
     ebind (row pred_affs i) (\<lambda>pred_affs_i.
     ebind (Decoder_forward (edges self) pred_affs_i (int j)) (\<lambda>pred_affs_j.
     ebind (get_aff target_labels_i edge) (\<lambda>target_affs_j.
     ebind (get_aff mask_i edge) (\<lambda>mask_aff_j.
     ebind (edge_term self pred_affs_j target_affs_j mask_aff_j) (\<lambda>m.
       edge_loop self pred_affs i target_labels_i mask_i rest (add_loss loss m))))))"

fun example_loop ::
  "loss_module \<Rightarrow> real tensor \<Rightarrow> int tensor \<Rightarrow> real tensor \<Rightarrow> nat list \<Rightarrow> real option \<Rightarrow>
   error + real option" where
  "example_loop self pred_affs target_labels masks [] loss = Inr loss"
| "example_loop self pred_affs target_labels masks (i # rest) loss =
     ebind (row masks i) (\<lambda>masks_i.
     ebind (row target_labels i) (\<lambda>labels_i.
     ebind (edge_loop self pred_affs i (tensor_map real_of_int labels_i) (toGPU masks_i)
              (enumerate 0 (edges self)) loss) (\<lambda>loss'.
       example_loop self pred_affs target_labels masks rest loss')))"

definition forward ::
  "loss_module \<Rightarrow> collaborators \<Rightarrow> real tensor \<Rightarrow> int tensor \<Rightarrow> error + (real option \<times> stats)" where
  "forward self col pred_affs target_labels =
     ebind (get_pred_labels self col pred_affs) (\<lambda>pred_labels.
     ebind (snd (get_critical_masks self col pred_labels target_labels)) (\<lambda>(masks, stats).
       case shape pred_affs of
         [] \<Rightarrow> Inl IndexError
       | n # _ \<Rightarrow>
           ebind (example_loop self pred_affs target_labels masks [0..<n] (Some 0)) (\<lambda>loss.
             Inr (loss, stats))))"

section \<open>Notions used in the statements about the critical masks\<close>

definition contribution :: "real \<Rightarrow> analysis \<Rightarrow> nat list \<Rightarrow> real" where
  "contribution b res idx =
     (case res of (i, mask_i, n_criticals, critical_type) \<Rightarrow>
        if hd idx = i
        then (if critical_type = - 1 then b else 1 - b) * the (lookup mask_i (tl idx))
        else 0)"

definition count_share :: "bool \<Rightarrow> nat \<Rightarrow> analysis \<Rightarrow> real" where
  "count_share split len_preds res =
     (case res of (i, mask_i, n_criticals, critical_type) \<Rightarrow>
        if (critical_type = - 1) = split then real_of_int n_criticals / real len_preds else 0)"

definition stats_after :: "nat \<Rightarrow> stats \<Rightarrow> analysis list \<Rightarrow> stats" where
  "stats_after len_preds st rs =
     \<lparr>Splits = Splits st + sum_list (map (count_share True len_preds) rs),
      Merges = Merges st + sum_list (map (count_share False len_preds) rs)\<rparr>"

definition analyses_of ::
  "(nat \<Rightarrow> real tensor \<times> int) \<Rightarrow> (nat \<Rightarrow> real tensor \<times> int) \<Rightarrow> nat \<Rightarrow> analysis list" where
  "analyses_of split merge n =
     concat (map (\<lambda>k. [(k, fst (split k), snd (split k), - 1), (k, fst (merge k), snd (merge k), 1)]) [0..<n])"

definition tasks_of :: "(nat \<Rightarrow> int tensor) \<Rightarrow> int tensor list \<Rightarrow> task list" where
  "tasks_of tv preds =
     concat (map (\<lambda>k.
       [\<lparr>task_target = tv k, task_pred = preds ! k, task_id = k, task_type = - 1\<rparr>,
        \<lparr>task_target = preds ! k, task_pred = tv k, task_id = k, task_type = 1\<rparr>]) [0..<length preds])"

section \<open>Concrete inputs\<close>

definition vol222 :: "int tensor" where
  "vol222 = \<lparr>shape = [2, 2, 2], entries = [1, 1, 0, 2, 1, 2, 0, 2]\<rparr>"

definition plane22 :: "int tensor" where
  "plane22 = \<lparr>shape = [2, 2], entries = [1, 1, 0, 2]\<rparr>"

definition affs1222 :: "real tensor" where
  "affs1222 = \<lparr>shape = [1, 2, 2, 2], entries = [1, 1, 0, 1, 1, 0, 0, 1]\<rparr>"

definition example_detect :: "int tensor \<Rightarrow> int tensor \<Rightarrow> error + (real tensor \<times> int)" where
  \<comment> \<open>a stand-in for the critical detector: it flags the voxels where the two volumes differ\<close>
  "example_detect t p =
     Inr (\<lparr>shape = shape t, entries = map2 (\<lambda>a b. if a = b then 0 else 1) (entries t) (entries p)\<rparr>,
          int (length (filter (\<lambda>(a, b). a \<noteq> b) (zip (entries t) (entries p)))))"

definition example_col :: collaborators where
  "example_col =
     \<lparr>run_watershed = (\<lambda>binary. Inr (mk_tensor (drop 1 (shape binary)) (\<lambda>_. 1))),
      detect_critical = example_detect,
      as_completed = rev\<rparr>"

definition example_self :: loss_module where
  "example_self =
     \<lparr>edges = [[1, 0, 0]], alpha = 0, beta = 1 / 4, threshold = 1 / 2,
      criterion = tensor_binop (\<lambda>x y. (x - y) * (x - y))\<rparr>"

definition example_preds :: "int tensor list" where
  "example_preds = [\<lparr>shape = [1, 1, 2], entries = [1, 2]\<rparr>, \<lparr>shape = [1, 1, 2], entries = [3, 3]\<rparr>]"

definition example_targets :: "int tensor" where
  "example_targets = \<lparr>shape = [2, 1, 1, 1, 2], entries = [1, 1, 3, 3]\<rparr>"

definition example_tv :: "nat \<Rightarrow> int tensor" where
  "example_tv k = \<lparr>shape = [1, 1, 2], entries = (if k = 0 then [1, 1] else [3, 3])\<rparr>"

definition example_split :: "nat \<Rightarrow> real tensor \<times> int" where
  "example_split k = projr (example_detect (example_tv k) (example_preds ! k))"

definition example_merge :: "nat \<Rightarrow> real tensor \<times> int" where
  "example_merge k = projr (example_detect (example_preds ! k) (example_tv k))"

definition example_affs :: "real tensor" where
  "example_affs = \<lparr>shape = [2, 1, 1, 1, 2], entries = [1, 0, 1, 1]\<rparr>"


definition vol522 :: "int tensor" where
  "vol522 = \<lparr>shape = [5, 2, 2],
             entries = [1, 1, 0, 2, 1, 2, 0, 2, 3, 3, 3, 0, 1, 1, 2, 2, 0, 0, 1, 3]\<rparr>"

section \<open>Basic facts about errors, indices and tensors\<close>

lemma ebind_simps [simp]:
  "ebind (Inl e) f = Inl e" "ebind (Inr v) f = f v"
  by (simp_all add: ebind_def)

lemma ebind_eq_Inr_iff: "ebind m f = Inr y \<longleftrightarrow> (\<exists>v. m = Inr v \<and> f v = Inr y)"
  by (cases m) simp_all

lemma isl_ebind: "(\<And>v. isl (f v)) \<Longrightarrow> isl (ebind m f)"
  by (cases m) simp_all

lemma isl_ebind_left: "isl m \<Longrightarrow> isl (ebind m f)"
  by (cases m) simp_all

lemma py_nth_simps [simp]:
  "py_nth (x # xs) 0 = Inr x"
  "py_nth (x # y # xs) (Suc 0) = Inr y"
  "py_nth (x # y # z # xs) 2 = Inr z"
  by (simp_all add: py_nth_def)

lemma set_indices: "set (indices s) = {idx. list_all2 (<) idx s}"
  by (simp add: indices_def product_lists_set list_all2_map2)

lemma in_indices_iff: "idx \<in> set (indices s) \<longleftrightarrow> list_all2 (<) idx s"
  by (simp add: set_indices)

lemma distinct_indices: "distinct (indices s)"
  unfolding indices_def by (rule distinct_product_lists) auto

lemma nil_in_indices: "[] \<in> set (indices [])"
  by (simp add: indices_def)

lemma in_indices_append3:
  "idx \<in> set (indices (lead @ [l0, l1, l2])) \<longleftrightarrow>
   (\<exists>p i j k. idx = p @ [i, j, k] \<and> p \<in> set (indices lead) \<and> i < l0 \<and> j < l1 \<and> k < l2)"
proof
  assume "idx \<in> set (indices (lead @ [l0, l1, l2]))"
  then obtain p q where "idx = p @ q" "list_all2 (<) p lead" "list_all2 (<) q [l0, l1, l2]"
    by (auto simp: in_indices_iff list_all2_append2)
  moreover from this obtain i j k where "q = [i, j, k]" "i < l0" "j < l1" "k < l2"
    by (auto simp: list_all2_Cons2)
  ultimately show "\<exists>p i j k. idx = p @ [i, j, k] \<and> p \<in> set (indices lead) \<and> i < l0 \<and> j < l1 \<and> k < l2"
    by (auto simp: in_indices_iff)
next
  assume "\<exists>p i j k. idx = p @ [i, j, k] \<and> p \<in> set (indices lead) \<and> i < l0 \<and> j < l1 \<and> k < l2"
  then show "idx \<in> set (indices (lead @ [l0, l1, l2]))"
    by (auto simp: in_indices_iff intro!: list_all2_appendI)
qed

lemma those_eq_Some_iff: "those xs = Some ys \<longleftrightarrow> xs = map Some ys"
  by (induction xs arbitrary: ys) (auto split: option.splits)

lemma shape_mk_tensor [simp]: "shape (mk_tensor s f) = s"
  and entries_mk_tensor [simp]: "entries (mk_tensor s f) = map f (indices s)"
  by (simp_all add: mk_tensor_def)

lemma wf_mk_tensor [simp]: "wf_tensor (mk_tensor s f)"
  by (simp add: wf_tensor_def)

lemma lookup_mk_tensor:
  "lookup (mk_tensor s f) idx = (if idx \<in> set (indices s) then Some (f idx) else None)"
  by (simp add: lookup_def map_of_zip_map)

lemma build_eq_Inr_iff:
  "build s f = Inr a \<longleftrightarrow> shape a = s \<and> map f (indices s) = map Some (entries a)"
proof (cases "those (map f (indices s))")
  case None
  then have "map f (indices s) \<noteq> map Some (entries a)"
    using those_eq_Some_iff [of "map f (indices s)" "entries a"] by auto
  with None show ?thesis by (simp add: build_def)
next
  case (Some vs)
  then have "map f (indices s) = map Some vs"
    by (simp add: those_eq_Some_iff)
  with Some show ?thesis
    by (cases a) (auto simp: build_def)
qed

lemma build_mk_tensor:
  "(\<And>idx. idx \<in> set (indices s) \<Longrightarrow> f idx = Some (g idx)) \<Longrightarrow> build s f = Inr (mk_tensor s g)"
  by (simp add: build_eq_Inr_iff)

lemma gather_eq_Inr_iff:
  "gather s g t = Inr a \<longleftrightarrow>
     shape a = s \<and> map (\<lambda>idx. lookup t (g idx)) (indices s) = map Some (entries a)"
  by (simp add: gather_def build_eq_Inr_iff)

lemma wf_lookup_Some:
  "wf_tensor t \<Longrightarrow> idx \<in> set (indices (shape t)) \<Longrightarrow> \<exists>v. lookup t idx = Some v"
  unfolding wf_tensor_def lookup_def
  by (metis map_of_zip_is_Some)

lemma gather_mk_tensor:
  "(\<And>idx. idx \<in> set (indices s) \<Longrightarrow> lookup t (g idx) = Some (f idx)) \<Longrightarrow>
   gather s g t = Inr (mk_tensor s f)"
  by (simp add: gather_eq_Inr_iff)

lemma gather_succeeds:
  assumes "wf_tensor t" and "\<And>idx. idx \<in> set (indices s) \<Longrightarrow> g idx \<in> set (indices (shape t))"
  shows "\<exists>a. gather s g t = Inr a"
proof -
  have "gather s g t = Inr (mk_tensor s (\<lambda>idx. the (lookup t (g idx))))"
    using assms by (intro gather_mk_tensor) (metis wf_lookup_Some option.sel)
  then show ?thesis ..
qed

lemma bshape_rev_same: "bshape_rev xs xs = Some xs"
  by (induction xs) simp_all

lemma broadcast_shapes_same [simp]: "broadcast_shapes s s = Some s"
  by (simp add: broadcast_shapes_def bshape_rev_same)

lemma bidx_same_aux:
  "list_all2 (<) idx s \<Longrightarrow> map2 (\<lambda>d i. if d = Suc 0 then 0 else i) s idx = (idx :: nat list)"
  by (induction rule: list_all2_induct) auto

lemma bidx_same: "idx \<in> set (indices s) \<Longrightarrow> bidx s idx = idx"
  by (simp add: bidx_def in_indices_iff bidx_same_aux list_all2_lengthD)

lemma broadcast_to_mk_tensor_same:
  "broadcast_to s (mk_tensor s f) = Inr (mk_tensor s f)"
  unfolding broadcast_to_def
  by (rule gather_mk_tensor) (simp add: bidx_same lookup_mk_tensor)

lemma map2_map_map: "map2 f (map g xs) (map h xs) = map (\<lambda>x. f (g x) (h x)) xs"
  by (induction xs) simp_all

lemma tensor_binop_mk_tensor_same:
  "tensor_binop f (mk_tensor s g) (mk_tensor s h) = Inr (mk_tensor s (\<lambda>idx. f (g idx) (h idx)))"
  by (simp add: tensor_binop_def broadcast_to_mk_tensor_same map2_map_map)

lemma tensor_map_mk_tensor: "tensor_map g (mk_tensor s f) = mk_tensor s (\<lambda>idx. g (f idx))"
  by (simp add: tensor_map_def mk_tensor_def)

section \<open>More facts about tensors\<close>

lemma shape_tensor_map [simp]: "shape (tensor_map h t) = shape t"
  and entries_tensor_map [simp]: "entries (tensor_map h t) = map h (entries t)"
  by (simp_all add: tensor_map_def)

lemma wf_tensor_map [simp]: "wf_tensor (tensor_map h t) = wf_tensor t"
  by (simp add: wf_tensor_def)

lemma lookup_tensor_map: "lookup (tensor_map h t) idx = map_option h (lookup t idx)"
  by (simp add: lookup_def zip_map2 map_of_map [unfolded comp_def])

lemma map_map_of_zip:
  "length xs = length ys \<Longrightarrow> distinct xs \<Longrightarrow> map (map_of (zip xs ys)) xs = map Some ys"
proof (induction xs ys rule: list_induct2)
  case Nil
  then show ?case by simp
next
  case (Cons x xs y ys)
  then have "map (\<lambda>a. if a = x then Some y else map_of (zip xs ys) a) xs = map (map_of (zip xs ys)) xs"
    by (intro map_cong) auto
  with Cons show ?case by (simp add: fun_upd_def)
qed

lemma map_lookup_wf:
  "wf_tensor t \<Longrightarrow> map (lookup t) (indices (shape t)) = map Some (entries t)"
  unfolding wf_tensor_def lookup_def [abs_def]
  by (simp add: map_map_of_zip distinct_indices)

lemma broadcast_to_same:
  assumes "wf_tensor t"
  shows "broadcast_to (shape t) t = Inr t"
proof -
  have "map (\<lambda>idx. lookup t (bidx (shape t) idx)) (indices (shape t)) = map (lookup t) (indices (shape t))"
    by (intro map_cong) (simp_all add: bidx_same)
  then show ?thesis
    using map_lookup_wf [OF assms] by (simp add: broadcast_to_def gather_eq_Inr_iff)
qed

lemma in_indices_Cons:
  "idx \<in> set (indices (n # s)) \<longleftrightarrow> (\<exists>k rest. idx = k # rest \<and> k < n \<and> rest \<in> set (indices s))"
  by (auto simp: in_indices_iff list_all2_Cons2)

lemma row_mk_tensor:
  "i < n \<Longrightarrow> row (mk_tensor (n # s) f) i = Inr (mk_tensor s (\<lambda>idx. f (i # idx)))"
  by (simp add: row_def gather_mk_tensor lookup_mk_tensor in_indices_Cons)

lemma tensor_binop_same_shape:
  assumes "wf_tensor a" and "wf_tensor b" and "shape a = shape b"
  shows "tensor_binop f a b = Inr \<lparr>shape = shape a, entries = map2 f (entries a) (entries b)\<rparr>"
  using broadcast_to_same [OF assms(1)] broadcast_to_same [OF assms(2)] assms(3)
  by (simp add: tensor_binop_def)

lemma lookup_in_entries: "lookup t idx = Some v \<Longrightarrow> v \<in> set (entries t)"
  unfolding lookup_def by (meson map_of_SomeD set_zip_rightD)

lemma bshape_rev_dims:
  "bshape_rev xs ys = Some zs \<Longrightarrow>
   length xs \<le> length zs \<and> list_all2 (\<lambda>x z. x = z \<or> x = 1) xs (take (length xs) zs)"
proof (induction xs ys arbitrary: zs rule: bshape_rev.induct)
  case (1 ys)
  then show ?case by simp
next
  case (2 x xs)
  then show ?case by (auto simp: list_all2_same)
next
  case (3 x xs y ys)
  then show ?case by (auto split: if_splits)
qed

lemma broadcast_shapes_dims:
  assumes "broadcast_shapes a b = Some s"
  shows "length a \<le> length s \<and>
         list_all2 (\<lambda>d n. d = n \<or> d = 1) a (drop (length s - length a) s)"
proof -
  obtain zs where zs: "bshape_rev (rev a) (rev b) = Some zs" and s: "s = rev zs"
    using assms by (auto simp: broadcast_shapes_def)
  have "length a \<le> length zs" and "list_all2 (\<lambda>x z. x = z \<or> x = 1) (rev a) (take (length a) zs)"
    using bshape_rev_dims [OF zs] by simp_all
  then have "list_all2 (\<lambda>x z. x = z \<or> x = 1) a (rev (take (length a) zs))"
    by (metis list_all2_rev1)
  then show ?thesis
    using \<open>length a \<le> length zs\<close> by (simp add: s rev_take)
qed

lemma bidx_aux:
  "list_all2 (\<lambda>d n. d = n \<or> d = 1) a ns \<Longrightarrow> list_all2 (<) js ns \<Longrightarrow>
   list_all2 (<) (map2 (\<lambda>d i. if d = 1 then 0 else i) a js) (a :: nat list)"
proof (induction a ns arbitrary: js rule: list_all2_induct)
  case Nil
  then show ?case by simp
next
  case (Cons d a n ns)
  then obtain j js' where "js = j # js'" "j < n" "list_all2 (<) js' ns"
    by (auto simp: list_all2_Cons2)
  with Cons show ?case by auto
qed

lemma bidx_in_range:
  assumes "broadcast_shapes a b = Some s" and "idx \<in> set (indices s)"
  shows "bidx a idx \<in> set (indices a)"
proof -
  have d: "length a \<le> length s" "list_all2 (\<lambda>d n. d = n \<or> d = 1) a (drop (length s - length a) s)"
    using broadcast_shapes_dims [OF assms(1)] by simp_all
  have i: "list_all2 (<) idx s" using assms(2) by (simp add: in_indices_iff)
  then have "length idx = length s" by (rule list_all2_lengthD)
  moreover have "list_all2 (<) (drop (length s - length a) idx) (drop (length s - length a) s)"
    using i by (rule list_all2_dropI)
  ultimately show ?thesis
    using bidx_aux [OF d(2)] by (simp add: bidx_def in_indices_iff)
qed

lemma broadcast_to_succeeds:
  assumes "wf_tensor t" and "broadcast_shapes (shape t) b = Some s"
  shows "\<exists>t'. broadcast_to s t = Inr t'"
  unfolding broadcast_to_def
  by (rule gather_succeeds [OF assms(1)]) (rule bidx_in_range [OF assms(2)])

lemma gather_entries_subset:
  assumes "gather s g t = Inr a"
  shows "set (entries a) \<subseteq> set (entries t)"
proof
  fix v
  assume "v \<in> set (entries a)"
  then have "Some v \<in> set (map (\<lambda>idx. lookup t (g idx)) (indices s))"
    using assms by (simp add: gather_eq_Inr_iff)
  then obtain idx where "lookup t (g idx) = Some v" by auto
  then show "v \<in> set (entries t)" by (rule lookup_in_entries)
qed

lemma gather_length: "gather s g t = Inr a \<Longrightarrow> length (entries a) = length (indices s)"
  unfolding gather_eq_Inr_iff by (metis length_map)

lemma bshape_rev_Nil2: "bshape_rev xs [] = Some xs"
  by (cases xs) simp_all

lemma bshape_rev_commute: "bshape_rev xs ys = bshape_rev ys xs"
  by (induction xs ys rule: bshape_rev.induct) (auto simp: bshape_rev_Nil2)

lemma broadcast_shapes_commute: "broadcast_shapes a b = broadcast_shapes b a"
  by (simp add: broadcast_shapes_def bshape_rev_commute [of "rev a"])

lemma bshape_rev_absorb: "bshape_rev xs ys = Some zs \<Longrightarrow> bshape_rev zs xs = Some zs"
proof (induction xs ys arbitrary: zs rule: bshape_rev.induct)
  case (1 ys)
  then show ?case by (simp add: bshape_rev_Nil2)
next
  case (2 x xs)
  then show ?case by (simp add: bshape_rev_same)
next
  case (3 x xs y ys)
  then show ?case by (auto split: if_splits)
qed

lemma broadcast_shapes_absorb:
  "broadcast_shapes a b = Some s \<Longrightarrow> broadcast_shapes s a = Some s"
  by (auto simp: broadcast_shapes_def dest: bshape_rev_absorb)

lemma gather_wf: "gather s g t = Inr a \<Longrightarrow> wf_tensor a \<and> shape a = s"
  using gather_length [of s g t a] by (simp add: wf_tensor_def gather_eq_Inr_iff)

lemma tensor_binop_fails:
  "broadcast_shapes (shape a) (shape b) = None \<Longrightarrow> tensor_binop f a b = Inl RuntimeError"
  by (simp add: tensor_binop_def)

lemma tensor_binop_succeeds:
  assumes wa: "wf_tensor a" and wb: "wf_tensor b"
    and s: "broadcast_shapes (shape a) (shape b) = Some s"
  shows "\<exists>c. tensor_binop f a b = Inr c \<and> wf_tensor c \<and> shape c = s"
proof -
  obtain a' where a': "broadcast_to s a = Inr a'"
    using broadcast_to_succeeds [OF wa s] by blast
  have s': "broadcast_shapes (shape b) (shape a) = Some s"
    using s by (simp add: broadcast_shapes_commute)
  obtain b' where b': "broadcast_to s b = Inr b'"
    using broadcast_to_succeeds [OF wb s'] by blast
  have la: "length (entries a') = length (indices s)"
    using a' unfolding broadcast_to_def by (rule gather_length)
  have lb: "length (entries b') = length (indices s)"
    using b' unfolding broadcast_to_def by (rule gather_length)
  show ?thesis
    by (simp add: tensor_binop_def s a' b' wf_tensor_def la lb)
qed

lemma broadcast_shapes_last3:
  "broadcast_shapes (lead @ [x0, x1, x2]) (lead @ [y0, y1, y2]) =
     (if (x0 = y0 \<or> y0 = 1 \<or> x0 = 1) \<and> (x1 = y1 \<or> y1 = 1 \<or> x1 = 1) \<and> (x2 = y2 \<or> y2 = 1 \<or> x2 = 1)
      then Some (lead @ [if x0 = y0 \<or> y0 = 1 then x0 else y0,
                         if x1 = y1 \<or> y1 = 1 then x1 else y1,
                         if x2 = y2 \<or> y2 = 1 then x2 else y2])
      else None)"
  by (simp add: broadcast_shapes_def bshape_rev_same)

section \<open>Slices of the last three axes\<close>

lemma window3_eq:
  "window3 t (n0 # n1 # n2 # shp') (a0 # a1 # a2 # lo') (b0 # b1 # b2 # hi') =
   slice_last3 t [(a0, int n0 - b0), (a1, int n1 - b1), (a2, int n2 - b2)]"
  by (simp add: window3_def axis_slice_def)

lemma last3_append3 [simp]: "last3 (lead @ [n0, n1, n2]) = [n0, n1, n2]"
  by (simp add: last3_def)

lemma slice_last3_eq:
  assumes "shape t = lead @ [n0, n1, n2]"
  shows "slice_last3 t [(lo0, hi0), (lo1, hi1), (lo2, hi2)] =
         gather (lead @ [snd (slice_bounds n0 lo0 hi0), snd (slice_bounds n1 lo1 hi1),
                         snd (slice_bounds n2 lo2 hi2)])
           (shift_last (length lead)
              [fst (slice_bounds n0 lo0 hi0), fst (slice_bounds n1 lo1 hi1),
               fst (slice_bounds n2 lo2 hi2)]) t"
  using assms by (simp add: slice_last3_def Let_def)

lemma slice_bounds_in_range: "fst (slice_bounds n lo hi) + snd (slice_bounds n lo hi) \<le> n"
  unfolding slice_bounds_def Let_def fst_conv snd_conv by (simp only: max_def min_def) auto

lemma slice_bounds_fit:
  "0 \<le> a \<Longrightarrow> 0 \<le> b \<Longrightarrow> a + b \<le> int n \<Longrightarrow>
   slice_bounds n a (int n - b) = (nat a, n - nat a - nat b)"
  by (auto simp: slice_bounds_def Let_def)

lemma slice_bounds_lt:
  "i < snd (slice_bounds n lo hi) \<Longrightarrow> fst (slice_bounds n lo hi) + i < n"
  using slice_bounds_in_range [of n lo hi] by linarith

lemma shift_last_append3 [simp]:
  "length p = r \<Longrightarrow> shift_last r [a, b, c] (p @ [i, j, k]) = p @ [a + i, b + j, c + k]"
  by (simp add: shift_last_def)

lemma window3_succeeds:
  assumes "wf_tensor L" and "shape L = lead @ [n0, n1, n2]"
  shows "\<exists>a. window3 L [n0, n1, n2] (a0 # a1 # a2 # lo') (b0 # b1 # b2 # hi') = Inr a"
proof -
  let ?sb = "\<lambda>n a b. slice_bounds n a (int n - b)"
  have "window3 L [n0, n1, n2] (a0 # a1 # a2 # lo') (b0 # b1 # b2 # hi') =
        gather (lead @ [snd (?sb n0 a0 b0), snd (?sb n1 a1 b1), snd (?sb n2 a2 b2)])
          (shift_last (length lead) [fst (?sb n0 a0 b0), fst (?sb n1 a1 b1), fst (?sb n2 a2 b2)]) L"
    by (simp add: window3_eq slice_last3_eq [OF assms(2)])
  moreover have "\<exists>a. \<dots> = Inr a"
  proof (rule gather_succeeds [OF assms(1)])
    fix idx
    assume "idx \<in> set (indices (lead @ [snd (?sb n0 a0 b0), snd (?sb n1 a1 b1), snd (?sb n2 a2 b2)]))"
    then obtain p i j k where idx: "idx = p @ [i, j, k]" "p \<in> set (indices lead)"
      "i < snd (?sb n0 a0 b0)" "j < snd (?sb n1 a1 b1)" "k < snd (?sb n2 a2 b2)"
      unfolding in_indices_append3 by blast
    have len: "length p = length lead"
      using idx(2) by (simp add: in_indices_iff list_all2_lengthD)
    have "fst (?sb n0 a0 b0) + i < n0" "fst (?sb n1 a1 b1) + j < n1" "fst (?sb n2 a2 b2) + k < n2"
      using idx(3-5) by (simp_all only: slice_bounds_lt)
    then show "shift_last (length lead)
          [fst (?sb n0 a0 b0), fst (?sb n1 a1 b1), fst (?sb n2 a2 b2)] idx \<in> set (indices (shape L))"
      using idx(1,2) len by (simp add: assms(2) in_indices_append3)
  qed
  ultimately show ?thesis by simp
qed

lemma window3_fit:
  assumes wf: "wf_tensor L" and sh: "shape L = lead @ [n0, n1, n2]"
    and a: "0 \<le> a0" "0 \<le> a1" "0 \<le> a2" and b: "0 \<le> b0" "0 \<le> b1" "0 \<le> b2"
    and fit: "a0 + b0 \<le> int n0" "a1 + b1 \<le> int n1" "a2 + b2 \<le> int n2"
  shows "window3 L [n0, n1, n2] [a0, a1, a2] [b0, b1, b2] =
         Inr (mk_tensor (lead @ [n0 - nat a0 - nat b0, n1 - nat a1 - nat b1, n2 - nat a2 - nat b2])
               (\<lambda>idx. the (lookup L (shift_last (length lead) [nat a0, nat a1, nat a2] idx))))"
proof -
  have "window3 L [n0, n1, n2] [a0, a1, a2] [b0, b1, b2] =
        gather (lead @ [n0 - nat a0 - nat b0, n1 - nat a1 - nat b1, n2 - nat a2 - nat b2])
          (shift_last (length lead) [nat a0, nat a1, nat a2]) L"
    using a b fit
    by (simp add: window3_eq slice_last3_eq [OF sh] slice_bounds_fit)
  also have "\<dots> = Inr (mk_tensor (lead @ [n0 - nat a0 - nat b0, n1 - nat a1 - nat b1, n2 - nat a2 - nat b2])
               (\<lambda>idx. the (lookup L (shift_last (length lead) [nat a0, nat a1, nat a2] idx))))"
  proof (rule gather_mk_tensor)
    fix idx
    assume "idx \<in> set (indices (lead @ [n0 - nat a0 - nat b0, n1 - nat a1 - nat b1, n2 - nat a2 - nat b2]))"
    then obtain p i j k where idx: "idx = p @ [i, j, k]" "p \<in> set (indices lead)"
      "i < n0 - nat a0 - nat b0" "j < n1 - nat a1 - nat b1" "k < n2 - nat a2 - nat b2"
      unfolding in_indices_append3 by blast
    have len: "length p = length lead"
      using idx(2) by (simp add: in_indices_iff list_all2_lengthD)
    have "nat a0 + i < n0" using idx(3) by linarith
    moreover have "nat a1 + j < n1" using idx(4) by linarith
    moreover have "nat a2 + k < n2" using idx(5) by linarith
    ultimately    have "shift_last (length lead) [nat a0, nat a1, nat a2] idx \<in> set (indices (shape L))"
      using idx(1,2) len by (simp add: sh in_indices_append3)
    from wf_lookup_Some [OF wf this]
    show "lookup L (shift_last (length lead) [nat a0, nat a1, nat a2] idx) =
          Some (the (lookup L (shift_last (length lead) [nat a0, nat a1, nat a2] idx)))"
      by auto
  qed
  finally show ?thesis .
qed

lemma window3_short:
  "length shp < 3 \<or> length lo < 3 \<or> length hi < 3 \<Longrightarrow> window3 t shp lo hi = Inl IndexError"
  by (auto simp: window3_def axis_slice_def ebind_def py_nth_def split: sum.splits)

lemma length_last3_less: "length xs < 3 \<Longrightarrow> length (last3 xs) < 3"
  by (simp add: last3_def)

lemma split_last3:
  assumes "3 \<le> length (s :: 'a list)"
  shows "\<exists>lead n0 n1 n2. s = lead @ [n0, n1, n2]"
proof -
  have "length (drop (length s - 3) s) = Suc (Suc (Suc 0))" using assms by simp
  then obtain n0 n1 n2 where "drop (length s - 3) s = [n0, n1, n2]"
    unfolding length_Suc_conv by auto
  then have "s = take (length s - 3) s @ [n0, n1, n2]"
    by (metis append_take_drop_id)
  then show ?thesis by blast
qed

lemma offsets_abs:
  "n - nat (max e 0) - nat (max (- e) 0) = n - nat \<bar>e\<bar>"
  "n - nat (max (- e) 0) - nat (max e 0) = n - nat \<bar>e\<bar>"
  "nat \<bar>e\<bar> = nat (max e 0) + nat (max (- e) 0)"
  by linarith+

lemma offsets_in_range:
  assumes "i < n - nat \<bar>e\<bar>"
  shows "nat (max e 0) + i < n" and "nat (max (- e) 0) + i < n"
  using assms by linarith+

lemma window3_result:
  assumes "wf_tensor L" and "shape L = lead @ [n0, n1, n2]"
  shows "\<exists>a. window3 L [n0, n1, n2] (a0 # a1 # a2 # lo') (b0 # b1 # b2 # hi') = Inr a \<and>
             wf_tensor a \<and>
             shape a = lead @ [snd (slice_bounds n0 a0 (int n0 - b0)),
                               snd (slice_bounds n1 a1 (int n1 - b1)),
                               snd (slice_bounds n2 a2 (int n2 - b2))]"
proof -
  let ?sb = "\<lambda>n a b. slice_bounds n a (int n - b)"
  have eq: "window3 L [n0, n1, n2] (a0 # a1 # a2 # lo') (b0 # b1 # b2 # hi') =
        gather (lead @ [snd (?sb n0 a0 b0), snd (?sb n1 a1 b1), snd (?sb n2 a2 b2)])
          (shift_last (length lead) [fst (?sb n0 a0 b0), fst (?sb n1 a1 b1), fst (?sb n2 a2 b2)]) L"
    by (simp add: window3_eq slice_last3_eq [OF assms(2)])
  obtain a where a: "window3 L [n0, n1, n2] (a0 # a1 # a2 # lo') (b0 # b1 # b2 # hi') = Inr a"
    using window3_succeeds [OF assms] by blast
  from a [unfolded eq] have "wf_tensor a \<and>
     shape a = lead @ [snd (?sb n0 a0 b0), snd (?sb n1 a1 b1), snd (?sb n2 a2 b2)]"
    by (rule gather_wf)
  with a show ?thesis by blast
qed

lemma axis_lengths:
  fixes n :: nat and e :: int
  shows "snd (slice_bounds n (max e 0) (int n - max (- e) 0)) =
           (if \<bar>e\<bar> \<le> int n then n - nat \<bar>e\<bar> else if 0 < e then 0 else nat (2 * int n - \<bar>e\<bar>))"
    and "snd (slice_bounds n (max (- e) 0) (int n - max e 0)) =
           (if \<bar>e\<bar> \<le> int n then n - nat \<bar>e\<bar> else if 0 < e then nat (2 * int n - \<bar>e\<bar>) else 0)"
  unfolding slice_bounds_def Let_def snd_conv by (simp_all only: max_def min_def) auto

lemma axis_compat:
  fixes n :: nat and e :: int
  defines "l1 \<equiv> snd (slice_bounds n (max e 0) (int n - max (- e) 0))"
    and "l2 \<equiv> snd (slice_bounds n (max (- e) 0) (int n - max e 0))"
  shows "(l1 = l2 \<or> l2 = 1 \<or> l1 = 1) \<longleftrightarrow> \<not> (int n < \<bar>e\<bar> \<and> \<bar>e\<bar> \<le> 2 * int n - 2)"
    and "l1 = l2 \<or> l2 = 1 \<or> l1 = 1 \<Longrightarrow> (if l1 = l2 \<or> l2 = 1 then l1 else l2) = n - nat \<bar>e\<bar>"
proof -
  have a: "l1 = (if \<bar>e\<bar> \<le> int n then n - nat \<bar>e\<bar> else if 0 < e then 0 else nat (2 * int n - \<bar>e\<bar>))"
    unfolding l1_def by (rule axis_lengths)
  have b: "l2 = (if \<bar>e\<bar> \<le> int n then n - nat \<bar>e\<bar> else if 0 < e then nat (2 * int n - \<bar>e\<bar>) else 0)"
    unfolding l2_def by (rule axis_lengths)
  consider (fit) "\<bar>e\<bar> \<le> int n" | (pos) "int n < \<bar>e\<bar>" "0 < e" | (neg) "int n < \<bar>e\<bar>" "\<not> 0 < e"
    by linarith
  then show "(l1 = l2 \<or> l2 = 1 \<or> l1 = 1) \<longleftrightarrow> \<not> (int n < \<bar>e\<bar> \<and> \<bar>e\<bar> \<le> 2 * int n - 2)"
  proof cases
    case fit
    then show ?thesis by (simp add: a b)
  next
    case pos
    then have "l1 = 0" "l2 = nat (2 * int n - \<bar>e\<bar>)" by (simp_all add: a b)
    with pos show ?thesis by auto
  next
    case neg
    then have "l2 = 0" "l1 = nat (2 * int n - \<bar>e\<bar>)" by (simp_all add: a b)
    with neg show ?thesis by auto
  qed
  assume c: "l1 = l2 \<or> l2 = 1 \<or> l1 = 1"
  consider (fit) "\<bar>e\<bar> \<le> int n" | (pos) "int n < \<bar>e\<bar>" "0 < e" | (neg) "int n < \<bar>e\<bar>" "\<not> 0 < e"
    by linarith
  then show "(if l1 = l2 \<or> l2 = 1 then l1 else l2) = n - nat \<bar>e\<bar>"
  proof cases
    case fit
    then show ?thesis by (simp add: a b)
  next
    case pos
    then have "l1 = 0" "l2 = nat (2 * int n - \<bar>e\<bar>)" by (simp_all add: a b)
    with pos c show ?thesis by auto
  next
    case neg
    then have "l2 = 0" "l1 = nat (2 * int n - \<bar>e\<bar>)" by (simp_all add: a b)
    with neg c show ?thesis by auto
  qed
qed

section \<open>Pairwise affinities\<close>

lemma get_pair_fit:
  assumes wf: "wf_tensor L" and sh: "shape L = lead @ [n0, n1, n2]"
    and fit: "\<bar>e0\<bar> \<le> int n0" "\<bar>e1\<bar> \<le> int n1" "\<bar>e2\<bar> \<le> int n2"
  shows "get_pair L [e0, e1, e2] =
     Inr (mk_tensor (lead @ [n0 - nat \<bar>e0\<bar>, n1 - nat \<bar>e1\<bar>, n2 - nat \<bar>e2\<bar>])
            (\<lambda>idx. the (lookup L (shift_last (length lead)
                        [nat (max e0 0), nat (max e1 0), nat (max e2 0)] idx))),
          mk_tensor (lead @ [n0 - nat \<bar>e0\<bar>, n1 - nat \<bar>e1\<bar>, n2 - nat \<bar>e2\<bar>])
            (\<lambda>idx. the (lookup L (shift_last (length lead)
                        [nat (max (- e0) 0), nat (max (- e1) 0), nat (max (- e2) 0)] idx))))"
proof -
  have d: "n - nat (max e 0) - nat (max (- e) 0) = n - nat \<bar>e\<bar>"
          "n - nat (max (- e) 0) - nat (max e 0) = n - nat \<bar>e\<bar>" for n :: nat and e :: int
    by linarith+
  have s: "max e 0 + max (- e) 0 \<le> int n" "max (- e) 0 + max e 0 \<le> int n"
    if "\<bar>e\<bar> \<le> int n" for n :: nat and e :: int
    using that by linarith+
  have w1: "window3 L [n0, n1, n2] [max e0 0, max e1 0, max e2 0] [max (- e0) 0, max (- e1) 0, max (- e2) 0] =
     Inr (mk_tensor (lead @ [n0 - nat \<bar>e0\<bar>, n1 - nat \<bar>e1\<bar>, n2 - nat \<bar>e2\<bar>])
            (\<lambda>idx. the (lookup L (shift_last (length lead)
                        [nat (max e0 0), nat (max e1 0), nat (max e2 0)] idx))))"
    using window3_fit [OF wf sh, of "max e0 0" "max e1 0" "max e2 0"
        "max (- e0) 0" "max (- e1) 0" "max (- e2) 0"] s(1) [OF fit(1)] s(1) [OF fit(2)] s(1) [OF fit(3)]
    by (simp only: d max.cobounded2 simp_thms)
  have w2: "window3 L [n0, n1, n2] [max (- e0) 0, max (- e1) 0, max (- e2) 0] [max e0 0, max e1 0, max e2 0] =
     Inr (mk_tensor (lead @ [n0 - nat \<bar>e0\<bar>, n1 - nat \<bar>e1\<bar>, n2 - nat \<bar>e2\<bar>])
            (\<lambda>idx. the (lookup L (shift_last (length lead)
                        [nat (max (- e0) 0), nat (max (- e1) 0), nat (max (- e2) 0)] idx))))"
    using window3_fit [OF wf sh, of "max (- e0) 0" "max (- e1) 0" "max (- e2) 0"
        "max e0 0" "max e1 0" "max e2 0"] s(2) [OF fit(1)] s(2) [OF fit(2)] s(2) [OF fit(3)]
    by (simp only: d max.cobounded2 simp_thms)
  show ?thesis
    by (simp add: get_pair_def sh w1 w2)
qed

lemma get_aff_fit:
  fixes L :: "'a::zero_neq_one tensor"
  assumes wf: "wf_tensor L" and sh: "shape L = lead @ [n0, n1, n2]"
    and fit: "\<bar>e0\<bar> \<le> int n0" "\<bar>e1\<bar> \<le> int n1" "\<bar>e2\<bar> \<le> int n2"
  shows "get_aff L [e0, e1, e2] =
     Inr (mk_tensor (lead @ [n0 - nat \<bar>e0\<bar>, n1 - nat \<bar>e1\<bar>, n2 - nat \<bar>e2\<bar>])
            (\<lambda>idx. if the (lookup L (shift_last (length lead)
                        [nat (max e0 0), nat (max e1 0), nat (max e2 0)] idx)) =
                      the (lookup L (shift_last (length lead)
                        [nat (max (- e0) 0), nat (max (- e1) 0), nat (max (- e2) 0)] idx)) \<and>
                      the (lookup L (shift_last (length lead)
                        [nat (max e0 0), nat (max e1 0), nat (max e2 0)] idx)) \<noteq> 0
                   then 1 else 0))"
  by (simp add: get_aff_def get_pair_fit [OF assms] tensor_binop_mk_tensor_same tensor_map_mk_tensor)

lemma get_pair_short:
  "length (shape L) < 3 \<or> length e < 3 \<Longrightarrow> get_pair L e = Inl IndexError"
  by (auto simp: get_pair_def Let_def window3_short length_last3_less)

lemma get_pair_succeeds:
  assumes "wf_tensor L" and "3 \<le> length (shape L)" and "3 \<le> length e"
  shows "\<exists>a b. get_pair L e = Inr (a, b)"
proof -
  obtain lead n0 n1 n2 where sh: "shape L = lead @ [n0, n1, n2]"
    using split_last3 [OF assms(2)] by blast
  obtain e0 e1 e2 e' where e: "e = e0 # e1 # e2 # e'"
    using assms(3) by (metis Suc_le_length_iff numeral_3_eq_3)
  obtain a where a: "window3 L [n0, n1, n2] (map (\<lambda>e. max e 0) e) (map (\<lambda>e. max (- e) 0) e) = Inr a"
    using window3_succeeds [OF assms(1) sh] unfolding e list.map by blast
  obtain b where b: "window3 L [n0, n1, n2] (map (\<lambda>e. max (- e) 0) e) (map (\<lambda>e. max e 0) e) = Inr b"
    using window3_succeeds [OF assms(1) sh] unfolding e list.map by blast
  show ?thesis by (simp add: get_pair_def sh a b)
qed

lemma get_pair_fit_neg:
  assumes wf: "wf_tensor L" and sh: "shape L = lead @ [n0, n1, n2]"
    and fit: "\<bar>e0\<bar> \<le> int n0" "\<bar>e1\<bar> \<le> int n1" "\<bar>e2\<bar> \<le> int n2"
  shows "get_pair L [- e0, - e1, - e2] = map_sum id prod.swap (get_pair L [e0, e1, e2])"
proof -
  have fit': "\<bar>- e0\<bar> \<le> int n0" "\<bar>- e1\<bar> \<le> int n1" "\<bar>- e2\<bar> \<le> int n2"
    using fit by simp_all
  show ?thesis
    unfolding get_pair_fit [OF wf sh fit] get_pair_fit [OF wf sh fit']
    by (simp only: abs_minus_cancel minus_minus map_sum.simps prod.swap_def fst_conv snd_conv)
qed

lemma get_aff_fit_neg:
  fixes L :: "'a::zero_neq_one tensor"
  assumes wf: "wf_tensor L" and sh: "shape L = lead @ [n0, n1, n2]"
    and fit: "\<bar>e0\<bar> \<le> int n0" "\<bar>e1\<bar> \<le> int n1" "\<bar>e2\<bar> \<le> int n2"
  shows "get_aff L [- e0, - e1, - e2] = get_aff L [e0, e1, e2]"
proof -
  have fit': "\<bar>- e0\<bar> \<le> int n0" "\<bar>- e1\<bar> \<le> int n1" "\<bar>- e2\<bar> \<le> int n2"
    using fit by simp_all
  have eq: "(if x = y \<and> x \<noteq> 0 then 1 else 0 :: 'a) = (if y = x \<and> y \<noteq> 0 then 1 else 0)"
    for x y :: 'a by auto
  show ?thesis
    unfolding get_aff_fit [OF wf sh fit] get_aff_fit [OF wf sh fit']
    by (simp only: abs_minus_cancel minus_minus) (subst eq, rule refl)
qed

lemma wf_vol222: "wf_tensor vol222"
  by code_simp

lemma shape_vol222: "shape vol222 = [] @ [2, 2, 2]"
  by (simp add: vol222_def)

lemma get_aff_outcome:
  fixes o1 :: "'a::zero_neq_one tensor"
  assumes p: "get_pair L e = Inr (o1, o2)" and w1: "wf_tensor o1" and w2: "wf_tensor o2"
  shows "broadcast_shapes (shape o1) (shape o2) = None \<Longrightarrow> get_aff L e = Inl RuntimeError"
    and "broadcast_shapes (shape o1) (shape o2) = Some s \<Longrightarrow>
         \<exists>c. get_aff L e = Inr c \<and> wf_tensor c \<and> shape c = s"
proof -
  assume "broadcast_shapes (shape o1) (shape o2) = None"
  then show "get_aff L e = Inl RuntimeError"
    by (simp add: get_aff_def p tensor_binop_fails)
next
  assume s: "broadcast_shapes (shape o1) (shape o2) = Some s"
  obtain eq where eq: "tensor_binop (=) o1 o2 = Inr eq" "wf_tensor eq" "shape eq = s"
    using tensor_binop_succeeds [OF w1 w2 s] by blast
  have "broadcast_shapes (shape eq) (shape (tensor_map (\<lambda>v. v \<noteq> 0) o1)) = Some s"
    using broadcast_shapes_absorb [OF s] by (simp add: eq(3))
  from tensor_binop_succeeds [OF eq(2) _ this, of "(\<and>)"] w1
  obtain ret where ret: "tensor_binop (\<and>) eq (tensor_map (\<lambda>v. v \<noteq> 0) o1) = Inr ret"
    "wf_tensor ret" "shape ret = s"
    by auto
  show "\<exists>c. get_aff L e = Inr c \<and> wf_tensor c \<and> shape c = s"
    by (simp add: get_aff_def p eq(1) ret)
qed

lemma get_aff_any_offset:
  fixes L :: "'a::zero_neq_one tensor"
  assumes wf: "wf_tensor L" and sh: "shape L = lead @ [n0, n1, n2]"
  shows "if (int n0 < \<bar>e0\<bar> \<and> \<bar>e0\<bar> \<le> 2 * int n0 - 2) \<or>
            (int n1 < \<bar>e1\<bar> \<and> \<bar>e1\<bar> \<le> 2 * int n1 - 2) \<or>
            (int n2 < \<bar>e2\<bar> \<and> \<bar>e2\<bar> \<le> 2 * int n2 - 2)
         then get_aff L (e0 # e1 # e2 # e') = Inl RuntimeError
         else \<exists>c. get_aff L (e0 # e1 # e2 # e') = Inr c \<and> wf_tensor c \<and>
                  shape c = lead @ [n0 - nat \<bar>e0\<bar>, n1 - nat \<bar>e1\<bar>, n2 - nat \<bar>e2\<bar>]"
proof -
  let ?l1 = "\<lambda>n e. snd (slice_bounds n (max e 0) (int n - max (- e) 0))"
  let ?l2 = "\<lambda>n e. snd (slice_bounds n (max (- e) 0) (int n - max e 0))"
  let ?e = "e0 # e1 # e2 # e'"
  obtain a where a: "window3 L [n0, n1, n2] (map (\<lambda>e. max e 0) ?e) (map (\<lambda>e. max (- e) 0) ?e) = Inr a"
    "wf_tensor a" "shape a = lead @ [?l1 n0 e0, ?l1 n1 e1, ?l1 n2 e2]"
    using window3_result [OF wf sh] unfolding list.map by blast
  obtain b where b: "window3 L [n0, n1, n2] (map (\<lambda>e. max (- e) 0) ?e) (map (\<lambda>e. max e 0) ?e) = Inr b"
    "wf_tensor b" "shape b = lead @ [?l2 n0 e0, ?l2 n1 e1, ?l2 n2 e2]"
    using window3_result [OF wf sh] unfolding list.map by blast
  have p: "get_pair L ?e = Inr (a, b)"
    by (simp only: get_pair_def Let_def sh last3_append3 a(1) b(1) ebind_simps)
  let ?bad = "(int n0 < \<bar>e0\<bar> \<and> \<bar>e0\<bar> \<le> 2 * int n0 - 2) \<or>
            (int n1 < \<bar>e1\<bar> \<and> \<bar>e1\<bar> \<le> 2 * int n1 - 2) \<or>
            (int n2 < \<bar>e2\<bar> \<and> \<bar>e2\<bar> \<le> 2 * int n2 - 2)"
  let ?ok = "\<lambda>n e. ?l1 n e = ?l2 n e \<or> ?l2 n e = 1 \<or> ?l1 n e = 1"
  have bad: "?bad \<longleftrightarrow> \<not> (?ok n0 e0 \<and> ?ok n1 e1 \<and> ?ok n2 e2)"
    unfolding axis_compat(1) by blast
  show ?thesis
  proof (cases ?bad)
    case True
    then have "broadcast_shapes (shape a) (shape b) = None"
      unfolding a(3) b(3) broadcast_shapes_last3 bad by (simp only: if_False)
    from get_aff_outcome(1) [OF p a(2) b(2) this] True show ?thesis
      by (simp only: if_True)
  next
    case False
    then have ok: "?ok n0 e0" "?ok n1 e1" "?ok n2 e2"
      unfolding bad by blast+
    have "broadcast_shapes (shape a) (shape b) =
          Some (lead @ [n0 - nat \<bar>e0\<bar>, n1 - nat \<bar>e1\<bar>, n2 - nat \<bar>e2\<bar>])"
      unfolding a(3) b(3) broadcast_shapes_last3
      using ok axis_compat(2) [OF ok(1)] axis_compat(2) [OF ok(2)] axis_compat(2) [OF ok(3)]
      by (simp only: simp_thms if_True)
    from get_aff_outcome(2) [OF p a(2) b(2) this] False show ?thesis
      by (simp only: if_False)
  qed
qed

lemma wf_vol522: "wf_tensor vol522"
  by code_simp

lemma shape_vol522: "shape vol522 = [] @ [5, 2, 2]"
  by (simp add: vol522_def)

lemma rank_plane22: "length (shape plane22) < 3"
  by (simp add: plane22_def)


lemma get_aff_vol522_size_mismatch:
  "get_pair vol522 [7, 0, 0] =
     Inr (\<lparr>shape = [0, 2, 2], entries = []\<rparr>,
          \<lparr>shape = [3, 2, 2], entries = [1, 1, 0, 2, 1, 2, 0, 2, 3, 3, 3, 0]\<rparr>) \<and>
   get_aff vol522 [7, 0, 0] = Inl RuntimeError"
  by code_simp

text \<open>
  Claim C2.  Let the last three axes of a well-formed volume \<open>L\<close> have the lengths
  \<open>n0, n1, n2\<close> and let the offset \<open>(e0, e1, e2)\<close> fit (\<open>\<bar>ek\<bar> \<le> nk\<close>).  With
  \<open>offset1 = max(e, 0)\<close> and \<open>offset2 = max(-e, 0)\<close>, \<^verbatim>\<open>get_pair\<close> returns the two windows
  \<open>a = L[offset1 : shape - offset2]\<close> and \<open>b = L[offset2 : shape - offset1]\<close>: their
  shapes are \<open>shape - offset2 - offset1\<close> on the last three axes, and at every index
  \<open>p @ [i, j, k]\<close> they hold the elements of \<open>L\<close> at \<open>p @ ([i, j, k] + offset1)\<close> and at
  \<open>p @ ([i, j, k] + offset2)\<close>.  \<^verbatim>\<open>get_aff\<close> returns, in the element type of \<open>L\<close>, 1 where
  the two elements are equal and the first is not 0, and 0 elsewhere.  Both are functions
  of their arguments alone.
\<close>

theorem get_pair_get_aff_windows:
  fixes L :: "'a::zero_neq_one tensor"
  assumes wf: "wf_tensor L" and sh: "shape L = lead @ [n0, n1, n2]"
    and fit: "\<bar>e0\<bar> \<le> int n0" "\<bar>e1\<bar> \<le> int n1" "\<bar>e2\<bar> \<le> int n2"
    and p: "p \<in> set (indices lead)"
    and i: "i < n0 - nat (max e0 0) - nat (max (- e0) 0)"
    and j: "j < n1 - nat (max e1 0) - nat (max (- e1) 0)"
    and k: "k < n2 - nat (max e2 0) - nat (max (- e2) 0)"
  shows "\<exists>a b c x y.
     get_pair L [e0, e1, e2] = Inr (a, b) \<and> get_aff L [e0, e1, e2] = Inr c \<and>
     shape a = lead @ [n0 - nat (max e0 0) - nat (max (- e0) 0),
                       n1 - nat (max e1 0) - nat (max (- e1) 0),
                       n2 - nat (max e2 0) - nat (max (- e2) 0)] \<and>
     shape b = lead @ [n0 - nat (max (- e0) 0) - nat (max e0 0),
                       n1 - nat (max (- e1) 0) - nat (max e1 0),
                       n2 - nat (max (- e2) 0) - nat (max e2 0)] \<and>
     shape c = shape a \<and>
     lookup L (p @ [nat (max e0 0) + i, nat (max e1 0) + j, nat (max e2 0) + k]) = Some x \<and>
     lookup L (p @ [nat (max (- e0) 0) + i, nat (max (- e1) 0) + j, nat (max (- e2) 0) + k]) = Some y \<and>
     lookup a (p @ [i, j, k]) = Some x \<and>
     lookup b (p @ [i, j, k]) = Some y \<and>
     lookup c (p @ [i, j, k]) = Some (if x = y \<and> x \<noteq> 0 then 1 else 0)"
proof -
  let ?S = "lead @ [n0 - nat \<bar>e0\<bar>, n1 - nat \<bar>e1\<bar>, n2 - nat \<bar>e2\<bar>]"
  let ?o1 = "[nat (max e0 0), nat (max e1 0), nat (max e2 0)]"
  let ?o2 = "[nat (max (- e0) 0), nat (max (- e1) 0), nat (max (- e2) 0)]"
  let ?i1 = "p @ [nat (max e0 0) + i, nat (max e1 0) + j, nat (max e2 0) + k]"
  let ?i2 = "p @ [nat (max (- e0) 0) + i, nat (max (- e1) 0) + j, nat (max (- e2) 0) + k]"
  define fa where "fa = (\<lambda>idx. the (lookup L (shift_last (length lead) ?o1 idx)))"
  define fb where "fb = (\<lambda>idx. the (lookup L (shift_last (length lead) ?o2 idx)))"
  define a where "a = mk_tensor ?S fa"
  define b where "b = mk_tensor ?S fb"
  define c :: "'a tensor"
    where "c = mk_tensor ?S (\<lambda>idx. if fa idx = fb idx \<and> fa idx \<noteq> 0 then 1 else 0)"
  have gp: "get_pair L [e0, e1, e2] = Inr (a, b)"
    unfolding a_def b_def fa_def fb_def by (rule get_pair_fit [OF wf sh fit])
  have ga: "get_aff L [e0, e1, e2] = Inr c"
    unfolding c_def fa_def fb_def by (rule get_aff_fit [OF wf sh fit])
  have len: "length p = length lead"
    using p by (simp add: in_indices_iff list_all2_lengthD)
  have ijk: "i < n0 - nat \<bar>e0\<bar>" "j < n1 - nat \<bar>e1\<bar>" "k < n2 - nat \<bar>e2\<bar>"
    using i j k by (simp_all only: offsets_abs)
  have inS: "p @ [i, j, k] \<in> set (indices ?S)"
    using p ijk by (simp add: in_indices_append3)
  have "?i1 \<in> set (indices (shape L))"
    using p offsets_in_range(1) [OF ijk(1)] offsets_in_range(1) [OF ijk(2)]
      offsets_in_range(1) [OF ijk(3)]
    by (simp only: sh in_indices_append3) blast
  then obtain x where x: "lookup L ?i1 = Some x"
    using wf_lookup_Some [OF wf] by blast
  have "?i2 \<in> set (indices (shape L))"
    using p offsets_in_range(2) [OF ijk(1)] offsets_in_range(2) [OF ijk(2)]
      offsets_in_range(2) [OF ijk(3)]
    by (simp only: sh in_indices_append3) blast
  then obtain y where y: "lookup L ?i2 = Some y"
    using wf_lookup_Some [OF wf] by blast
  have fa: "fa (p @ [i, j, k]) = x"
    unfolding fa_def by (simp only: shift_last_append3 [OF len] x option.sel)
  have fb: "fb (p @ [i, j, k]) = y"
    unfolding fb_def by (simp only: shift_last_append3 [OF len] y option.sel)
  have la: "lookup a (p @ [i, j, k]) = Some x"
    unfolding a_def using inS by (simp only: lookup_mk_tensor fa if_True)
  have lb: "lookup b (p @ [i, j, k]) = Some y"
    unfolding b_def using inS by (simp only: lookup_mk_tensor fb if_True)
  have lc: "lookup c (p @ [i, j, k]) = Some (if x = y \<and> x \<noteq> 0 then 1 else 0)"
    unfolding c_def using inS by (simp only: lookup_mk_tensor fa fb if_True)
  have sa: "shape a = lead @ [n0 - nat (max e0 0) - nat (max (- e0) 0),
                       n1 - nat (max e1 0) - nat (max (- e1) 0),
                       n2 - nat (max e2 0) - nat (max (- e2) 0)]"
    unfolding a_def by (simp only: shape_mk_tensor offsets_abs)
  have sb: "shape b = lead @ [n0 - nat (max (- e0) 0) - nat (max e0 0),
                       n1 - nat (max (- e1) 0) - nat (max e1 0),
                       n2 - nat (max (- e2) 0) - nat (max e2 0)]"
    unfolding b_def by (simp only: shape_mk_tensor offsets_abs)
  have sc: "shape c = shape a"
    unfolding a_def c_def by (simp only: shape_mk_tensor)
  from gp ga sa sb sc x y la lb lc show ?thesis by blast
qed

theorem get_pair_get_aff_windows_witness:
  "\<exists>a b c x y.
     get_pair vol222 [1, 0, - 1] = Inr (a, b) \<and> get_aff vol222 [1, 0, - 1] = Inr c \<and>
     shape a = [1, 2, 1] \<and> shape b = [1, 2, 1] \<and> shape c = shape a \<and>
     lookup vol222 [1, 1, 0] = Some x \<and> lookup vol222 [0, 1, 1] = Some y \<and>
     lookup a [0, 1, 0] = Some x \<and> lookup b [0, 1, 0] = Some y \<and>
     lookup c [0, 1, 0] = Some (if x = y \<and> x \<noteq> 0 then 1 else 0)"
  using get_pair_get_aff_windows [OF wf_vol222 shape_vol222, of 1 0 "- 1", OF _ _ _ nil_in_indices, of 0 1 0]
  by simp

text \<open>
  Claim C6.  For a well-formed volume and an offset that fits, negating the offset swaps the
  two windows \<^verbatim>\<open>get_pair\<close> returns, and \<^verbatim>\<open>get_aff\<close> returns the same affinity map for
  \<open>e\<close> and for \<open>- e\<close>.
\<close>

theorem get_aff_edge_negation:
  fixes L :: "'a::zero_neq_one tensor"
  assumes wf: "wf_tensor L" and sh: "shape L = lead @ [n0, n1, n2]"
    and fit: "\<bar>e0\<bar> \<le> int n0" "\<bar>e1\<bar> \<le> int n1" "\<bar>e2\<bar> \<le> int n2"
  shows "\<exists>a b c.
     get_pair L [e0, e1, e2] = Inr (a, b) \<and> get_pair L [- e0, - e1, - e2] = Inr (b, a) \<and>
     get_aff L [e0, e1, e2] = Inr c \<and> get_aff L [- e0, - e1, - e2] = Inr c"
proof -
  obtain a b where ab: "get_pair L [e0, e1, e2] = Inr (a, b)"
    using get_pair_fit [OF wf sh fit] by blast
  obtain c where c: "get_aff L [e0, e1, e2] = Inr c"
    using get_aff_fit [OF wf sh fit] by blast
  have "get_pair L [- e0, - e1, - e2] = Inr (b, a)"
    using get_pair_fit_neg [OF wf sh fit] ab by simp
  moreover have "get_aff L [- e0, - e1, - e2] = Inr c"
    using get_aff_fit_neg [OF wf sh fit] c by simp
  ultimately show ?thesis using ab c by blast
qed

theorem get_aff_edge_negation_witness:
  "\<exists>a b c.
     get_pair vol222 [1, 0, - 1] = Inr (a, b) \<and> get_pair vol222 [- 1, 0, 1] = Inr (b, a) \<and>
     get_aff vol222 [1, 0, - 1] = Inr c \<and> get_aff vol222 [- 1, 0, 1] = Inr c"
  using get_aff_edge_negation [OF wf_vol222 shape_vol222, of 1 0 "- 1"]
  by simp

text \<open>
  Claim C7.  For a well-formed volume and an offset that fits, \<^verbatim>\<open>get_pair\<close> returns two
  arrays of one shape, the shape of the volume with \<open>\<bar>ek\<bar>\<close> taken from each of the last
  three axes, where \<open>\<bar>ek\<bar> = offset1 k + offset2 k\<close>; the element-wise comparison of the
  two arrays in \<^verbatim>\<open>get_aff\<close> succeeds and has that shape.
\<close>

theorem get_pair_shape_invariant:
  assumes wf: "wf_tensor L" and sh: "shape L = lead @ [n0, n1, n2]"
    and fit: "\<bar>e0\<bar> \<le> int n0" "\<bar>e1\<bar> \<le> int n1" "\<bar>e2\<bar> \<le> int n2"
  shows "\<exists>a b c.
     get_pair L [e0, e1, e2] = Inr (a, b) \<and>
     shape a = lead @ [n0 - nat \<bar>e0\<bar>, n1 - nat \<bar>e1\<bar>, n2 - nat \<bar>e2\<bar>] \<and>
     shape b = shape a \<and>
     nat \<bar>e0\<bar> = nat (max e0 0) + nat (max (- e0) 0) \<and>
     nat \<bar>e1\<bar> = nat (max e1 0) + nat (max (- e1) 0) \<and>
     nat \<bar>e2\<bar> = nat (max e2 0) + nat (max (- e2) 0) \<and>
     tensor_binop (=) a b = Inr c \<and> shape c = shape a"
proof -
  let ?S = "lead @ [n0 - nat \<bar>e0\<bar>, n1 - nat \<bar>e1\<bar>, n2 - nat \<bar>e2\<bar>]"
  obtain fa fb :: "nat list \<Rightarrow> 'a"
    where gp: "get_pair L [e0, e1, e2] = Inr (mk_tensor ?S fa, mk_tensor ?S fb)"
    using get_pair_fit [OF wf sh fit] by blast
  have "tensor_binop (=) (mk_tensor ?S fa) (mk_tensor ?S fb) =
        Inr (mk_tensor ?S (\<lambda>idx. fa idx = fb idx))"
    by (rule tensor_binop_mk_tensor_same)
  with gp show ?thesis
    by (intro exI [of _ "mk_tensor ?S fa"] exI [of _ "mk_tensor ?S fb"]
          exI [of _ "mk_tensor ?S (\<lambda>idx. fa idx = fb idx)"])
       (simp only: shape_mk_tensor offsets_abs(3) simp_thms)
qed

theorem get_pair_shape_invariant_witness:
  "\<exists>a b c.
     get_pair vol222 [1, 0, - 2] = Inr (a, b) \<and> shape a = [1, 2, 0] \<and> shape b = shape a \<and>
     tensor_binop (=) a b = Inr c \<and> shape c = shape a"
  using get_pair_shape_invariant [OF wf_vol222 shape_vol222, of 1 0 "- 2"]
  by simp

text \<open>
  Claim C9 says that the extractor fails when a component of the offset exceeds the
  length of its axis.  It does not: on the 2x2x2 volume \<open>vol222\<close> the offset \<open>(3, 0, 0)\<close>
  makes \<^verbatim>\<open>get_pair\<close> return an empty first window and a second window of length 1
  (Python clamps the slice \<^verbatim>\<open>3:2\<close> and reads \<^verbatim>\<open>0:-1\<close> from the end), and
  \<^verbatim>\<open>get_aff\<close> broadcasts the two into an empty map.
\<close>

theorem get_pair_exceeding_offset:
  "shape vol222 = [2, 2, 2] \<and>
   get_pair vol222 [3, 0, 0] =
     Inr (\<lparr>shape = [0, 2, 2], entries = []\<rparr>, \<lparr>shape = [1, 2, 2], entries = [1, 1, 0, 2]\<rparr>) \<and>
   get_aff vol222 [3, 0, 0] = Inr \<lparr>shape = [0, 2, 2], entries = []\<rparr>"
  by code_simp

text \<open>
  Claim C9 as amended, for an offset whose components lie within the 64-bit range of the
  array the source makes of it (\<open>\<bar>e\<bar> < 2 ^ 63\<close>).  \<^verbatim>\<open>get_pair\<close> and \<^verbatim>\<open>get_aff\<close> fail
  with an IndexError whenever the volume has fewer than three axes (or the offset fewer
  than three components).  On a well-formed volume with at least three axes
  \<^verbatim>\<open>get_pair\<close> never fails, whatever the size of the offset.  \<^verbatim>\<open>get_aff\<close> fails, with
  the RuntimeError of a size mismatch between the two windows, exactly when some component
  exceeds the length \<open>n\<close> of its axis by no more than \<open>n - 2\<close>, that is
  \<open>n < \<bar>e\<bar> \<le> 2 * n - 2\<close>: one window is then empty along that axis and the other has at
  least two entries.  In every other case, also when a component is larger still
  (\<open>\<bar>e\<bar> \<ge> 2 * n - 1\<close>), \<^verbatim>\<open>get_aff\<close> returns a map of the shape of the volume with
  \<open>\<bar>ek\<bar>\<close> taken from each of the last three axes, empty along an axis that the offset
  exceeds.
\<close>

theorem get_pair_failures:
  fixes L :: "'a::zero_neq_one tensor"
  assumes rng: "\<forall>x\<in>set e. \<bar>x\<bar> < 2 ^ 63"
  shows "(length (shape L) < 3 \<or> length e < 3 \<longrightarrow>
            get_pair L e = Inl IndexError \<and> get_aff L e = Inl IndexError) \<and>
         (wf_tensor L \<and> 3 \<le> length (shape L) \<and> 3 \<le> length e \<longrightarrow>
            (\<exists>a b. get_pair L e = Inr (a, b))) \<and>
         (wf_tensor L \<and> shape L = lead @ [n0, n1, n2] \<and> e = e0 # e1 # e2 # e' \<longrightarrow>
            (if (int n0 < \<bar>e0\<bar> \<and> \<bar>e0\<bar> \<le> 2 * int n0 - 2) \<or>
                (int n1 < \<bar>e1\<bar> \<and> \<bar>e1\<bar> \<le> 2 * int n1 - 2) \<or>
                (int n2 < \<bar>e2\<bar> \<and> \<bar>e2\<bar> \<le> 2 * int n2 - 2)
             then get_aff L e = Inl RuntimeError
             else \<exists>c. get_aff L e = Inr c \<and> wf_tensor c \<and>
                      shape c = lead @ [n0 - nat \<bar>e0\<bar>, n1 - nat \<bar>e1\<bar>, n2 - nat \<bar>e2\<bar>]))"
proof (intro conjI impI)
  assume "length (shape L) < 3 \<or> length e < 3"
  then have "get_pair L e = Inl IndexError" by (rule get_pair_short)
  then show "get_pair L e = Inl IndexError" and "get_aff L e = Inl IndexError"
    by (simp_all add: get_aff_def)
next
  assume "wf_tensor L \<and> 3 \<le> length (shape L) \<and> 3 \<le> length e"
  then show "\<exists>a b. get_pair L e = Inr (a, b)"
    using get_pair_succeeds [of L e] by blast
next
  assume h: "wf_tensor L \<and> shape L = lead @ [n0, n1, n2] \<and> e = e0 # e1 # e2 # e'"
  then have wf: "wf_tensor L" and sh: "shape L = lead @ [n0, n1, n2]" and e: "e = e0 # e1 # e2 # e'"
    by blast+
  show "if (int n0 < \<bar>e0\<bar> \<and> \<bar>e0\<bar> \<le> 2 * int n0 - 2) \<or>
                (int n1 < \<bar>e1\<bar> \<and> \<bar>e1\<bar> \<le> 2 * int n1 - 2) \<or>
                (int n2 < \<bar>e2\<bar> \<and> \<bar>e2\<bar> \<le> 2 * int n2 - 2)
             then get_aff L e = Inl RuntimeError
             else \<exists>c. get_aff L e = Inr c \<and> wf_tensor c \<and>
                      shape c = lead @ [n0 - nat \<bar>e0\<bar>, n1 - nat \<bar>e1\<bar>, n2 - nat \<bar>e2\<bar>]"
    unfolding e by (rule get_aff_any_offset [OF wf sh])
qed

theorem get_pair_failures_witness:
  "get_pair plane22 [1, 0, 0] = Inl IndexError \<and> get_aff plane22 [1, 0, 0] = Inl IndexError \<and>
   (\<exists>a b. get_pair vol222 [3, 0, 0] = Inr (a, b)) \<and>
   (\<exists>c. get_aff vol222 [3, 0, 0] = Inr c \<and> wf_tensor c \<and> shape c = [0, 2, 2]) \<and>
   (\<exists>a b. get_pair vol522 [7, 0, 0] = Inr (a, b)) \<and>
   get_aff vol522 [7, 0, 0] = Inl RuntimeError"
  using get_pair_failures [of "[1, 0, 0]" plane22]
    get_pair_failures [of "[3, 0, 0]" vol222 "[]" 2 2 2 3 0 0 "[]"]
    get_pair_failures [of "[7, 0, 0]" vol522 "[]" 5 2 2 7 0 0 "[]"]
    wf_vol222 shape_vol222 wf_vol522 shape_vol522 rank_plane22
  by simp

section \<open>The decoder\<close>

lemma get_pair_first_NameError: "get_pair_first labels edge = Inl (NameError ''arr'')"
  by (simp add: get_pair_first_def load_global_def module_globals_def)

lemma Decoder_forward_raises: "isl (Decoder_forward es x i)"
  by (simp add: Decoder_forward_def Let_def isl_ebind get_pair_first_NameError)

lemma select_channel_succeeds:
  assumes wf: "wf_tensor x" and r: "4 \<le> length (shape x)"
    and i: "i < shape x ! (length (shape x) - 4)"
  shows "\<exists>xi. select_channel x i = Inr xi"
proof -
  let ?r = "length (shape x)"
  have "\<exists>a. gather (take (?r - 4) (shape x) @ 1 # drop (?r - 3) (shape x))
             (\<lambda>idx. take (?r - 4) idx @ i # drop (?r - 3) idx) x = Inr a"
  proof (rule gather_succeeds [OF wf])
    fix idx
    assume "idx \<in> set (indices (take (?r - 4) (shape x) @ 1 # drop (?r - 3) (shape x)))"
    then obtain p q where idx: "idx = p @ q" and p: "list_all2 (<) p (take (?r - 4) (shape x))"
      and q: "list_all2 (<) q (1 # drop (?r - 3) (shape x))"
      by (auto simp: in_indices_iff list_all2_append2)
    from q obtain c q' where q': "q = c # q'" "list_all2 (<) q' (drop (?r - 3) (shape x))"
      by (auto simp: list_all2_Cons2)
    have lp: "length p = ?r - 4"
      using p r by (simp add: list_all2_lengthD)
    have t: "take (?r - 4) idx = p" using idx lp by simp
    have "drop (?r - 3) idx = drop 1 q" using idx lp r by simp
    then have d: "drop (?r - 3) idx = q'" using q' by simp
    have sx: "shape x = take (?r - 4) (shape x) @ shape x ! (?r - 4) # drop (Suc (?r - 4)) (shape x)"
      using r by (intro id_take_nth_drop) simp
    have "Suc (?r - 4) = ?r - 3" using r by simp
    then have "list_all2 (<) (p @ i # q') (shape x)"
      using p q'(2) i by (subst sx) (simp add: list_all2_appendI)
    then show "take (?r - 4) idx @ i # drop (?r - 3) idx \<in> set (indices (shape x))"
      by (simp add: t d in_indices_iff)
  qed
  then show ?thesis using r i by (simp add: select_channel_def Let_def)
qed

lemma wf_affs1222: "wf_tensor affs1222"
  by code_simp

text \<open>
  Claim C1 says that \<^verbatim>\<open>Decoder.forward(x, i)\<close> returns channel \<open>i\<close> of \<open>x\<close>, windowed like
  the first sub-volume of \<^verbatim>\<open>get_pair\<close>.  The code does not: \<^verbatim>\<open>get_pair_first\<close> slices
  the unbound name \<^verbatim>\<open>arr\<close> instead of its parameter \<^verbatim>\<open>labels\<close>.  For every well-formed
  tensor with at least four axes whose channel count is the number of edges, and every
  index in range, both assertions pass, the channel is selected, and the call ends in
  \<open>NameError ''arr''\<close>.
\<close>

theorem Decoder_forward_NameError:
  assumes "wf_tensor x" and "4 \<le> length (shape x)"
    and "shape x ! (length (shape x) - 4) = length es"
    and "0 \<le> i" and "i < int (length es)"
  shows "Decoder_forward es x i = Inl (NameError ''arr'')"
proof -
  have "nat i < shape x ! (length (shape x) - 4)" using assms(3-5) by simp
  then obtain xi where "select_channel x (nat i) = Inr xi"
    using select_channel_succeeds [OF assms(1,2)] by blast
  moreover have "py_nth es (nat i) = Inr (es ! nat i)"
    using assms(4,5) by (simp add: py_nth_def)
  ultimately show ?thesis
    using assms by (simp add: Decoder_forward_def Let_def get_pair_first_NameError)
qed

theorem Decoder_forward_NameError_witness:
  "Decoder_forward [[1, 0, 0]] affs1222 0 = Inl (NameError ''arr'')"
  using Decoder_forward_NameError [OF wf_affs1222, of "[[1, 0, 0]]" 0]
  by (simp add: affs1222_def)

section \<open>Critical masks\<close>

lemma row_iadd_mk_tensor:
  assumes i: "i < n" and wf: "wf_tensor v" and sh: "shape v = s"
  shows "row_iadd (mk_tensor (n # s) f) i v =
         Inr (mk_tensor (n # s)
               (\<lambda>idx. f idx + (if hd idx = i then the (lookup v (tl idx)) else 0)))"
proof -
  have b: "broadcast_to s v = Inr v"
    using broadcast_to_same [OF wf] sh by simp
  have "build (n # s)
          (\<lambda>idx. case idx of [] \<Rightarrow> None
                 | k # rest \<Rightarrow>
                     if k = i
                     then (case (lookup (mk_tensor s (\<lambda>idx. f (i # idx))) rest, lookup v rest) of
                             (Some a, Some b) \<Rightarrow> Some (a + b) | _ \<Rightarrow> None)
                     else lookup (mk_tensor (n # s) f) idx) =
        Inr (mk_tensor (n # s)
               (\<lambda>idx. f idx + (if hd idx = i then the (lookup v (tl idx)) else 0)))"
  proof (rule build_mk_tensor)
    fix idx
    assume idx: "idx \<in> set (indices (n # s))"
    then obtain k rest where kr: "idx = k # rest" "k < n" "rest \<in> set (indices s)"
      unfolding in_indices_Cons by blast
    obtain x where x: "lookup v rest = Some x"
      using wf_lookup_Some [OF wf] kr(3) sh by blast
    show "(case idx of [] \<Rightarrow> None
           | k # rest \<Rightarrow>
               if k = i
               then (case (lookup (mk_tensor s (\<lambda>idx. f (i # idx))) rest, lookup v rest) of
                       (Some a, Some b) \<Rightarrow> Some (a + b) | _ \<Rightarrow> None)
               else lookup (mk_tensor (n # s) f) idx) =
          Some (f idx + (if hd idx = i then the (lookup v (tl idx)) else 0))"
      using idx kr x by (simp add: lookup_mk_tensor)
  qed
  then show ?thesis
    using i by (simp add: row_iadd_def row_mk_tensor sh b)
qed

lemma collect_step_mk_tensor:
  assumes "i < n" and "wf_tensor m" and "shape m = s"
  shows "collect_step b len (mk_tensor (n # s) f, st) (i, m, c, ty) =
         Inr (mk_tensor (n # s) (\<lambda>idx. f idx + contribution b (i, m, c, ty) idx),
              stats_after len st [(i, m, c, ty)])"
proof -
  have "row_iadd (mk_tensor (n # s) f) i (tensor_map ((*) w) m) =
        Inr (mk_tensor (n # s) (\<lambda>idx. f idx + (if hd idx = i then w * the (lookup m (tl idx)) else 0)))"
    for w
  proof -
    have "the (lookup (tensor_map ((*) w) m) rest) = w * the (lookup m rest)"
      if rest: "rest \<in> set (indices s)" for rest
    proof -
      obtain x where "lookup m rest = Some x"
        using wf_lookup_Some [OF assms(2), of rest] rest assms(3) by auto
      then show ?thesis by (simp add: lookup_tensor_map)
    qed
    then have "mk_tensor (n # s)
                 (\<lambda>idx. f idx + (if hd idx = i then the (lookup (tensor_map ((*) w) m) (tl idx)) else 0)) =
               mk_tensor (n # s) (\<lambda>idx. f idx + (if hd idx = i then w * the (lookup m (tl idx)) else 0))"
      unfolding mk_tensor_def by (auto simp: in_indices_Cons)
    then show ?thesis
      using row_iadd_mk_tensor [OF assms(1), of "tensor_map ((*) w) m" s f] assms(2,3) by simp
  qed
  note r = this
  show ?thesis
  proof (cases "ty = - 1")
    case True
    then show ?thesis
      by (cases st) (simp add: collect_step_def r contribution_def stats_after_def count_share_def)
  next
    case False
    then show ?thesis
      by (cases st) (simp add: collect_step_def r contribution_def stats_after_def count_share_def)
  qed
qed

lemma stats_after_Cons:
  "stats_after len (stats_after len st [r]) rs = stats_after len st (r # rs)"
  by (simp add: stats_after_def add.assoc)

lemma collect_mk_tensor:
  assumes "\<And>i m c ty. (i, m, c, ty) \<in> set rs \<Longrightarrow> i < n \<and> wf_tensor m \<and> shape m = s"
  shows "collect b len (mk_tensor (n # s) f, st) (map Inr rs) =
         Inr (mk_tensor (n # s) (\<lambda>idx. f idx + sum_list (map (\<lambda>r. contribution b r idx) rs)),
              stats_after len st rs)"
  using assms
proof (induction rs arbitrary: f st)
  case Nil
  then show ?case by (simp add: stats_after_def)
next
  case (Cons r rs)
  obtain i m c ty where r: "r = (i, m, c, ty)" by (cases r) auto
  have ok: "i < n" "wf_tensor m" "shape m = s"
    using Cons.prems [of i m c ty] r by simp_all
  have ih: "collect b len (mk_tensor (n # s) (\<lambda>idx. f idx + contribution b r idx), stats_after len st [r])
              (map Inr rs) =
            Inr (mk_tensor (n # s)
                  (\<lambda>idx. (f idx + contribution b r idx) + sum_list (map (\<lambda>r. contribution b r idx) rs)),
                 stats_after len (stats_after len st [r]) rs)"
    by (rule Cons.IH) (use Cons.prems in auto)
  show ?case
    using collect_step_mk_tensor [OF ok, of b len f st c ty] ih
    by (simp add: r stats_after_Cons add.assoc)
qed

lemma submit_loop_tasks:
  assumes "\<And>i p. (i, p) \<in> set ips \<Longrightarrow> index2 targets i 0 = Inr (tv i)"
  shows "submit_loop targets ips acc =
         (acc @ concat (map (\<lambda>(i, p).
            [\<lparr>task_target = tv i, task_pred = p, task_id = i, task_type = - 1\<rparr>,
             \<lparr>task_target = p, task_pred = tv i, task_id = i, task_type = 1\<rparr>]) ips), None)"
  using assms
proof (induction ips arbitrary: acc)
  case Nil
  then show ?case by simp
next
  case (Cons ip ips)
  obtain i p where ip: "ip = (i, p)" by (cases ip)
  have "index2 targets i 0 = Inr (tv i)"
    using Cons.prems [of i p] ip by simp
  moreover have "submit_loop targets ips acc' =
         (acc' @ concat (map (\<lambda>(i, p).
            [\<lparr>task_target = tv i, task_pred = p, task_id = i, task_type = - 1\<rparr>,
             \<lparr>task_target = p, task_pred = tv i, task_id = i, task_type = 1\<rparr>]) ips), None)" for acc'
    by (rule Cons.IH) (use Cons.prems in auto)
  ultimately show ?case by (simp add: ip)
qed

lemma image_mset_projr_Inr: "image_mset projr (image_mset Inr M) = M"
  by (simp add: multiset.map_comp comp_def)

lemma mset_map_Inr_conv:
  assumes "mset ys = mset (map Inr xs)"
  shows "\<exists>zs. ys = map Inr zs \<and> mset zs = mset xs"
proof -
  have "set_mset (mset ys) = set_mset (mset (map Inr xs))"
    using assms by simp
  then have "set ys = Inr ` set xs"
    by simp
  then have "\<And>y. y \<in> set ys \<Longrightarrow> Inr (projr y) = y"
    by auto
  then have ys: "ys = map Inr (map projr ys)"
    by (simp add: map_idI)
  have a: "mset ys = image_mset Inr (mset xs)"
    using assms by simp
  have "mset (map projr ys) = mset xs"
    unfolding mset_map a by (rule image_mset_projr_Inr)
  then show ?thesis using ys by blast
qed

lemma sum_list_map_mset:
  fixes h :: "'a \<Rightarrow> real"
  assumes "mset xs = mset ys"
  shows "sum_list (map h xs) = sum_list (map h ys)"
proof -
  have "sum_mset (mset (map h xs)) = sum_mset (mset (map h ys))"
    using assms by simp
  then show ?thesis by (simp only: sum_mset_sum_list)
qed

lemma enumerate_conv_map: "enumerate 0 xs = map (\<lambda>k. (k, xs ! k)) [0..<length xs]"
  by (rule nth_equalityI) (simp_all add: nth_enumerate_eq)

lemma sum_list_concat_pairs:
  fixes h :: "'a \<Rightarrow> real"
  shows "sum_list (map h (concat (map (\<lambda>k. [f k, g k]) ks))) = sum_list (map (\<lambda>k. h (f k) + h (g k)) ks)"
  by (induction ks) simp_all

lemma sum_list_delta:
  fixes c :: "nat \<Rightarrow> real"
  shows "sum_list (map (\<lambda>k. if i = k then c k else 0) [0..<n]) = (if i < n then c i else 0)"
  by (induction n) simp_all

lemma sum_contribution:
  assumes "i < n"
  shows "sum_list (map (\<lambda>r. contribution b r (i # idx)) (analyses_of split merge n)) =
         b * the (lookup (fst (split i)) idx) + (1 - b) * the (lookup (fst (merge i)) idx)"
proof -
  have "sum_list (map (\<lambda>r. contribution b r (i # idx)) (analyses_of split merge n)) =
        sum_list (map (\<lambda>k. if i = k
                            then b * the (lookup (fst (split k)) idx) +
                                 (1 - b) * the (lookup (fst (merge k)) idx)
                            else 0) [0..<n])"
    unfolding analyses_of_def sum_list_concat_pairs
    by (intro arg_cong [where f = sum_list] map_cong refl) (simp add: contribution_def)
  then show ?thesis using assms by (simp only: sum_list_delta if_True)
qed

lemma sum_count_share_split:
  "sum_list (map (count_share True n) (analyses_of split merge n)) =
   (\<Sum>k<n. real_of_int (snd (split k))) / real n"
proof -
  have "sum_list (map (count_share True n) (analyses_of split merge n)) =
        sum_list (map (\<lambda>k. real_of_int (snd (split k)) / real n) [0..<n])"
    unfolding analyses_of_def sum_list_concat_pairs
    by (intro arg_cong [where f = sum_list] map_cong refl) (simp add: count_share_def)
  also have "\<dots> = (\<Sum>k<n. real_of_int (snd (split k)) / real n)"
    by (simp add: interv_sum_list_conv_sum_set_nat atLeast0LessThan)
  finally show ?thesis by (simp add: sum_divide_distrib)
qed

lemma sum_count_share_merge:
  "sum_list (map (count_share False n) (analyses_of split merge n)) =
   (\<Sum>k<n. real_of_int (snd (merge k))) / real n"
proof -
  have "sum_list (map (count_share False n) (analyses_of split merge n)) =
        sum_list (map (\<lambda>k. real_of_int (snd (merge k)) / real n) [0..<n])"
    unfolding analyses_of_def sum_list_concat_pairs
    by (intro arg_cong [where f = sum_list] map_cong refl) (simp add: count_share_def)
  also have "\<dots> = (\<Sum>k<n. real_of_int (snd (merge k)) / real n)"
    by (simp add: interv_sum_list_conv_sum_set_nat atLeast0LessThan)
  finally show ?thesis by (simp add: sum_divide_distrib)
qed

lemma analyses_of_member:
  "(i, m, c, ty) \<in> set (analyses_of split merge n) \<Longrightarrow>
   i < n \<and> (m = fst (split i) \<or> m = fst (merge i))"
  by (auto simp: analyses_of_def)

lemma submit_loop_enumerate:
  assumes "\<And>k. k < length preds \<Longrightarrow> index2 targets k 0 = Inr (tv k)"
  shows "submit_loop targets (enumerate 0 preds) [] = (tasks_of tv preds, None)"
proof -
  have "submit_loop targets (enumerate 0 preds) [] =
        ([] @ concat (map (\<lambda>(i, p).
            [\<lparr>task_target = tv i, task_pred = p, task_id = i, task_type = - 1\<rparr>,
             \<lparr>task_target = p, task_pred = tv i, task_id = i, task_type = 1\<rparr>]) (enumerate 0 preds)), None)"
    by (rule submit_loop_tasks) (use assms in \<open>auto simp: in_set_enumerate_eq\<close>)
  then show ?thesis
    by (simp add: tasks_of_def enumerate_conv_map comp_def)
qed

lemma run_tasks_of:
  assumes "\<And>k. k < length preds \<Longrightarrow> detect (tv k) (preds ! k) = Inr (split k)"
    and "\<And>k. k < length preds \<Longrightarrow> detect (preds ! k) (tv k) = Inr (merge k)"
  shows "map (run_task detect) (tasks_of tv preds) = map Inr (analyses_of split merge (length preds))"
  unfolding tasks_of_def analyses_of_def map_concat map_map
  by (intro arg_cong [where f = concat] map_cong refl)
     (use assms in \<open>simp add: run_task_def get_critical_mask_def case_prod_beta\<close>)

lemma get_critical_masks_nonempty:
  "preds \<noteq> [] \<Longrightarrow>
   get_critical_masks self col preds targets =
     (case submit_loop targets (enumerate 0 preds) [] of
        (processes, Some e) \<Rightarrow> (processes, Inl e)
      | (processes, None) \<Rightarrow>
          (processes,
           ebind (collect (beta self) (length preds)
                    (mk_tensor (length preds # shape (hd preds)) (\<lambda>_. 0), \<lparr>Splits = 0, Merges = 0\<rparr>)
                    (as_completed col (map (run_task (detect_critical col)) processes)))
             (\<lambda>(masks', stats'). Inr (toGPU masks', stats'))))"
  by (cases preds) (simp_all add: get_critical_masks_def Let_def)

lemma get_critical_masks_result:
  assumes ne: "preds \<noteq> []"
    and tv: "\<And>k. k < length preds \<Longrightarrow> index2 targets k 0 = Inr (tv k)"
    and sp: "\<And>k. k < length preds \<Longrightarrow> detect_critical col (tv k) (preds ! k) = Inr (split k)"
    and mg: "\<And>k. k < length preds \<Longrightarrow> detect_critical col (preds ! k) (tv k) = Inr (merge k)"
    and shs: "\<And>k. k < length preds \<Longrightarrow>
               wf_tensor (fst (split k)) \<and> shape (fst (split k)) = shape (hd preds)"
    and shm: "\<And>k. k < length preds \<Longrightarrow>
               wf_tensor (fst (merge k)) \<and> shape (fst (merge k)) = shape (hd preds)"
    and perm: "\<And>rs. mset (as_completed col rs) = mset rs"
  shows "get_critical_masks self col preds targets =
     (tasks_of tv preds,
      Inr (mk_tensor (length preds # shape (hd preds))
             (\<lambda>idx. sum_list (map (\<lambda>r. contribution (beta self) r idx)
                                (analyses_of split merge (length preds)))),
           stats_after (length preds) \<lparr>Splits = 0, Merges = 0\<rparr>
             (analyses_of split merge (length preds))))"
proof -
  let ?n = "length preds" and ?s = "shape (hd preds)"
  let ?rs0 = "analyses_of split merge ?n"
  obtain rs where rs: "as_completed col (map Inr ?rs0) = map Inr rs" and ms: "mset rs = mset ?rs0"
    using mset_map_Inr_conv [OF perm] by blast
  have ok: "i < ?n \<and> wf_tensor m \<and> shape m = ?s" if "(i, m, c, ty) \<in> set rs" for i m c ty
  proof -
    have "(i, m, c, ty) \<in> set ?rs0"
      using that mset_eq_setD [OF ms] by simp
    then show ?thesis
      using analyses_of_member [of i m c ty split merge ?n] shs [of i] shm [of i] by auto
  qed
  have "collect (beta self) ?n (mk_tensor (?n # ?s) (\<lambda>_. 0), \<lparr>Splits = 0, Merges = 0\<rparr>) (map Inr rs) =
        Inr (mk_tensor (?n # ?s) (\<lambda>idx. 0 + sum_list (map (\<lambda>r. contribution (beta self) r idx) rs)),
             stats_after ?n \<lparr>Splits = 0, Merges = 0\<rparr> rs)"
    by (rule collect_mk_tensor) (use ok in blast)
  also have "(\<lambda>idx. 0 + sum_list (map (\<lambda>r. contribution (beta self) r idx) rs)) =
             (\<lambda>idx. sum_list (map (\<lambda>r. contribution (beta self) r idx) ?rs0))"
    using sum_list_map_mset [OF ms] by simp
  also have "stats_after ?n \<lparr>Splits = 0, Merges = 0\<rparr> rs = stats_after ?n \<lparr>Splits = 0, Merges = 0\<rparr> ?rs0"
    unfolding stats_after_def using sum_list_map_mset [OF ms] by simp
  finally have c: "collect (beta self) ?n (mk_tensor (?n # ?s) (\<lambda>_. 0), \<lparr>Splits = 0, Merges = 0\<rparr>)
                     (map Inr rs) =
        Inr (mk_tensor (?n # ?s) (\<lambda>idx. sum_list (map (\<lambda>r. contribution (beta self) r idx) ?rs0)),
             stats_after ?n \<lparr>Splits = 0, Merges = 0\<rparr> ?rs0)" .
  have sub: "submit_loop targets (enumerate 0 preds) [] = (tasks_of tv preds, None)"
    by (rule submit_loop_enumerate [OF tv])
  have run: "map (run_task (detect_critical col)) (tasks_of tv preds) = map Inr ?rs0"
    by (rule run_tasks_of [OF sp mg])
  show ?thesis
    by (simp add: get_critical_masks_nonempty [OF ne] sub run rs c toGPU_def)
qed

lemma convex_binary:
  fixes b x y :: real
  assumes "0 \<le> b" "b \<le> 1" "x \<in> {0, 1}" "y \<in> {0, 1}"
  shows "0 \<le> b * x + (1 - b) * y \<and> b * x + (1 - b) * y \<le> 1"
  using assms by auto

lemma example_cases: "k < length example_preds \<Longrightarrow> k = 0 \<or> k = 1"
  by (auto simp: example_preds_def)

lemma example_index2: "k < length example_preds \<Longrightarrow> index2 example_targets k 0 = Inr (example_tv k)"
  by (drule example_cases, elim disjE; hypsubst; code_simp)

lemma example_split_eq:
  "detect_critical example_col (example_tv k) (example_preds ! k) = Inr (example_split k)"
  by (simp add: example_col_def example_split_def example_detect_def)

lemma example_merge_eq:
  "detect_critical example_col (example_preds ! k) (example_tv k) = Inr (example_merge k)"
  by (simp add: example_col_def example_merge_def example_detect_def)

lemma example_split_shape:
  "k < length example_preds \<Longrightarrow>
   wf_tensor (fst (example_split k)) \<and> shape (fst (example_split k)) = shape (hd example_preds)"
  by (drule example_cases, elim disjE; hypsubst; code_simp)

lemma example_merge_shape:
  "k < length example_preds \<Longrightarrow>
   wf_tensor (fst (example_merge k)) \<and> shape (fst (example_merge k)) = shape (hd example_preds)"
  by (drule example_cases, elim disjE; hypsubst; code_simp)

lemma example_perm: "mset (as_completed example_col rs) = mset rs"
  by (simp add: example_col_def)

lemma example_ne: "example_preds \<noteq> []"
  by (simp add: example_preds_def)

lemma example_zero: "0 < length example_preds"
  by (simp add: example_preds_def)

lemma example_idx: "[0, 0, 1] \<in> set (indices (shape (hd example_preds)))"
  by (simp add: example_preds_def in_indices_iff)

lemma example_split_binary: "set (entries (fst (example_split k))) \<subseteq> {0, 1}"
  by (auto simp: example_split_def example_detect_def set_zip)

lemma example_merge_binary: "set (entries (fst (example_merge k))) \<subseteq> {0, 1}"
  by (auto simp: example_merge_def example_detect_def set_zip)

lemma example_beta: "0 \<le> beta example_self" "beta example_self \<le> 1"
  by (simp_all add: example_self_def)




text \<open>
  Claim C4.  For a non-empty batch, when the split and the merge analysis of every
  example return a pair (mask, count) with a well-formed mask of the shape of the
  predicted volumes, \<^verbatim>\<open>get_critical_masks\<close> returns masks of shape
  \<open>len(preds) # shape\<close> with, at every voxel \<open>idx\<close> of every example \<open>i\<close>,
  \<open>masks[i][idx] = beta * split_mask[i][idx] + (1 - beta) * merge_mask[i][idx]\<close>, and stats
  whose \<open>Splits\<close> and \<open>Merges\<close> are the arithmetic means of the split and of the merge
  counts.  The futures may complete in any order.
\<close>

theorem get_critical_masks_combination:
  assumes ne: "preds \<noteq> []"
    and tv: "\<And>k. k < length preds \<Longrightarrow> index2 targets k 0 = Inr (tv k)"
    and sp: "\<And>k. k < length preds \<Longrightarrow> detect_critical col (tv k) (preds ! k) = Inr (split k)"
    and mg: "\<And>k. k < length preds \<Longrightarrow> detect_critical col (preds ! k) (tv k) = Inr (merge k)"
    and shs: "\<And>k. k < length preds \<Longrightarrow>
               wf_tensor (fst (split k)) \<and> shape (fst (split k)) = shape (hd preds)"
    and shm: "\<And>k. k < length preds \<Longrightarrow>
               wf_tensor (fst (merge k)) \<and> shape (fst (merge k)) = shape (hd preds)"
    and perm: "\<And>rs. mset (as_completed col rs) = mset rs"
    and i: "i < length preds" and idx: "idx \<in> set (indices (shape (hd preds)))"
  shows "\<exists>tasks masks st x y.
     get_critical_masks self col preds targets = (tasks, Inr (masks, st)) \<and>
     shape masks = length preds # shape (hd preds) \<and>
     lookup (fst (split i)) idx = Some x \<and>
     lookup (fst (merge i)) idx = Some y \<and>
     lookup masks (i # idx) = Some (beta self * x + (1 - beta self) * y) \<and>
     Splits st = (\<Sum>k<length preds. real_of_int (snd (split k))) / real (length preds) \<and>
     Merges st = (\<Sum>k<length preds. real_of_int (snd (merge k))) / real (length preds)"
proof -
  let ?n = "length preds" and ?s = "shape (hd preds)"
  let ?rs0 = "analyses_of split merge ?n"
  define masks where
    "masks = mk_tensor (?n # ?s) (\<lambda>idx. sum_list (map (\<lambda>r. contribution (beta self) r idx) ?rs0))"
  define st where "st = stats_after ?n \<lparr>Splits = 0, Merges = 0\<rparr> ?rs0"
  have r: "get_critical_masks self col preds targets = (tasks_of tv preds, Inr (masks, st))"
    unfolding masks_def st_def by (rule get_critical_masks_result [OF ne tv sp mg shs shm perm])
  obtain x where x: "lookup (fst (split i)) idx = Some x"
    using wf_lookup_Some [of "fst (split i)" idx] shs [OF i] idx by auto
  obtain y where y: "lookup (fst (merge i)) idx = Some y"
    using wf_lookup_Some [of "fst (merge i)" idx] shm [OF i] idx by auto
  have "i # idx \<in> set (indices (?n # ?s))"
    using i idx by (simp add: in_indices_Cons)
  then have l: "lookup masks (i # idx) = Some (beta self * x + (1 - beta self) * y)"
    unfolding masks_def by (simp add: lookup_mk_tensor sum_contribution [OF i] x y del: entries_mk_tensor)
  have s1: "Splits st = (\<Sum>k<?n. real_of_int (snd (split k))) / real ?n"
    unfolding st_def stats_after_def by (simp add: sum_count_share_split)
  have s2: "Merges st = (\<Sum>k<?n. real_of_int (snd (merge k))) / real ?n"
    unfolding st_def stats_after_def by (simp add: sum_count_share_merge)
  have sh: "shape masks = ?n # ?s" by (simp add: masks_def)
  from r sh x y l s1 s2 show ?thesis by blast
qed

theorem get_critical_masks_combination_witness:
  "\<exists>tasks masks st x y.
     get_critical_masks example_self example_col example_preds example_targets =
       (tasks, Inr (masks, st)) \<and>
     shape masks = length example_preds # shape (hd example_preds) \<and>
     lookup (fst (example_split 0)) [0, 0, 1] = Some x \<and>
     lookup (fst (example_merge 0)) [0, 0, 1] = Some y \<and>
     lookup masks [0, 0, 0, 1] = Some (beta example_self * x + (1 - beta example_self) * y) \<and>
     Splits st =
       (\<Sum>k<length example_preds. real_of_int (snd (example_split k))) / real (length example_preds) \<and>
     Merges st =
       (\<Sum>k<length example_preds. real_of_int (snd (example_merge k))) / real (length example_preds)"
  by (rule get_critical_masks_combination [OF example_ne example_index2 example_split_eq
      example_merge_eq example_split_shape example_merge_shape example_perm example_zero example_idx])

text \<open>
  Claim C8.  When the masks the analyses return hold only 0 and 1 and \<open>beta\<close> lies in
  \<open>[0, 1]\<close>, every voxel of the mask array \<^verbatim>\<open>get_critical_masks\<close> returns lies in
  \<open>[0, 1]\<close>.
\<close>

theorem get_critical_masks_bounds:
  assumes ne: "preds \<noteq> []"
    and tv: "\<And>k. k < length preds \<Longrightarrow> index2 targets k 0 = Inr (tv k)"
    and sp: "\<And>k. k < length preds \<Longrightarrow> detect_critical col (tv k) (preds ! k) = Inr (split k)"
    and mg: "\<And>k. k < length preds \<Longrightarrow> detect_critical col (preds ! k) (tv k) = Inr (merge k)"
    and shs: "\<And>k. k < length preds \<Longrightarrow>
               wf_tensor (fst (split k)) \<and> shape (fst (split k)) = shape (hd preds)"
    and shm: "\<And>k. k < length preds \<Longrightarrow>
               wf_tensor (fst (merge k)) \<and> shape (fst (merge k)) = shape (hd preds)"
    and perm: "\<And>rs. mset (as_completed col rs) = mset rs"
    and bs: "\<And>k. k < length preds \<Longrightarrow> set (entries (fst (split k))) \<subseteq> {0, 1}"
    and bm: "\<And>k. k < length preds \<Longrightarrow> set (entries (fst (merge k))) \<subseteq> {0, 1}"
    and b: "0 \<le> beta self" "beta self \<le> 1"
  shows "\<exists>tasks masks st.
     get_critical_masks self col preds targets = (tasks, Inr (masks, st)) \<and>
     (\<forall>v \<in> set (entries masks). 0 \<le> v \<and> v \<le> 1)"
proof -
  let ?n = "length preds" and ?s = "shape (hd preds)"
  let ?rs0 = "analyses_of split merge ?n"
  define masks where
    "masks = mk_tensor (?n # ?s) (\<lambda>idx. sum_list (map (\<lambda>r. contribution (beta self) r idx) ?rs0))"
  define st where "st = stats_after ?n \<lparr>Splits = 0, Merges = 0\<rparr> ?rs0"
  have r: "get_critical_masks self col preds targets = (tasks_of tv preds, Inr (masks, st))"
    unfolding masks_def st_def by (rule get_critical_masks_result [OF ne tv sp mg shs shm perm])
  have "0 \<le> v \<and> v \<le> 1" if "v \<in> set (entries masks)" for v
  proof -
    from that obtain idx0 where idx0: "idx0 \<in> set (indices (?n # ?s))"
      and v: "v = sum_list (map (\<lambda>r. contribution (beta self) r idx0) ?rs0)"
      unfolding masks_def by auto
    then obtain i idx where ii: "idx0 = i # idx" "i < ?n" "idx \<in> set (indices ?s)"
      unfolding in_indices_Cons by blast
    obtain x where x: "lookup (fst (split i)) idx = Some x"
      using wf_lookup_Some [of "fst (split i)" idx] shs [OF ii(2)] ii(3) by auto
    obtain y where y: "lookup (fst (merge i)) idx = Some y"
      using wf_lookup_Some [of "fst (merge i)" idx] shm [OF ii(2)] ii(3) by auto
    have "x \<in> {0, 1}" using lookup_in_entries [OF x] bs [OF ii(2)] by blast
    moreover have "y \<in> {0, 1}" using lookup_in_entries [OF y] bm [OF ii(2)] by blast
    moreover have "v = beta self * x + (1 - beta self) * y"
      unfolding v ii(1) by (simp add: sum_contribution [OF ii(2)] x y)
    ultimately show ?thesis using convex_binary [OF b] by blast
  qed
  with r show ?thesis by blast
qed

theorem get_critical_masks_bounds_witness:
  "\<exists>tasks masks st.
     get_critical_masks example_self example_col example_preds example_targets =
       (tasks, Inr (masks, st)) \<and>
     (\<forall>v \<in> set (entries masks). 0 \<le> v \<and> v \<le> 1)"
  by (rule get_critical_masks_bounds [OF example_ne example_index2 example_split_eq
      example_merge_eq example_split_shape example_merge_shape example_perm
      example_split_binary example_merge_binary example_beta])

text \<open>
  Claim C10.  For an empty list of predicted label volumes \<^verbatim>\<open>get_critical_masks\<close> raises
  an IndexError when it reads \<^verbatim>\<open>preds[0].shape\<close> to allocate the masks: no call has been
  submitted to the executor, and neither stats nor a mask are returned.
\<close>

theorem get_critical_masks_empty: "get_critical_masks self col [] targets = ([], Inl IndexError)"
  by (simp add: get_critical_masks_def)

section \<open>The loss\<close>

lemma edge_loop_raises: "isl (edge_loop self pred_affs i tli mki ((j, e) # rest) loss)"
  by (simp add: isl_ebind isl_ebind_left Decoder_forward_raises)

lemma example_loop_raises:
  assumes "edges self \<noteq> []"
  shows "isl (example_loop self pred_affs target_labels masks (i # rest) loss)"
proof -
  obtain e es where "edges self = e # es"
    using assms by (cases "edges self") auto
  then have en: "enumerate 0 (edges self) = (0, e) # enumerate 1 es"
    by simp
  show ?thesis
    unfolding example_loop.simps en
    by (intro isl_ebind isl_ebind_left edge_loop_raises)
qed

text \<open>
  Claim C5 says what loss \<^verbatim>\<open>forward\<close> returns for \<open>alpha = 0\<close>.  The code returns no
  loss: whenever the module has at least one edge, whatever \<open>alpha\<close> is, \<^verbatim>\<open>forward\<close>
  ends in an error, because its first call of the decoder does (see C1; an empty batch
  already fails in \<^verbatim>\<open>get_critical_masks\<close>).
\<close>

theorem forward_raises_with_edges:
  assumes "edges self \<noteq> []"
  shows "isl (forward self col pred_affs target_labels)"
proof (cases "get_pred_labels self col pred_affs")
  case (Inl e)
  then show ?thesis by (simp add: forward_def)
next
  case (Inr pred_labels)
  show ?thesis
  proof (cases "shape pred_affs")
    case Nil
    then show ?thesis using Inr by (simp add: get_pred_labels_def)
  next
    case (Cons n s)
    show ?thesis
    proof (cases n)
      case 0
      then have "pred_labels = []"
        using Inr Cons by (simp add: get_pred_labels_def)
      then show ?thesis
        using Inr by (simp add: forward_def get_critical_masks_def)
    next
      case (Suc m)
      have "[0..<n] = 0 # [1..<n]" using Suc by (simp add: upt_conv_Cons)
      then have ex: "isl (example_loop self pred_affs target_labels masks [0..<n] loss)" for masks loss
        using example_loop_raises [OF assms] by simp
      show ?thesis
      proof (cases "snd (get_critical_masks self col pred_labels target_labels)")
        case (Inl e)
        then show ?thesis using Inr by (simp add: forward_def)
      next
        case (Inr ms)
        obtain masks stats where "ms = (masks, stats)" by (cases ms)
        with Inr \<open>get_pred_labels self col pred_affs = Inr pred_labels\<close> Cons
        show ?thesis
          by (simp add: forward_def isl_ebind_left [OF ex])
      qed
    qed
  qed
qed

theorem forward_raises_with_edges_witness:
  "alpha example_self = 0 \<and> edges example_self = [[1, 0, 0]] \<and>
   isl (forward example_self example_col example_affs example_targets)"
  using forward_raises_with_edges [of example_self example_col example_affs example_targets]
  by (simp add: example_self_def)

lemma forward_example:
  "forward example_self example_col example_affs example_targets = Inl (NameError ''arr'')"
  by code_simp

section \<open>The loss for alpha = 0\<close>

lemma map2_add_zeros:
  fixes xs :: "real list"
  assumes "length zs = length xs" and "set zs \<subseteq> {0}"
  shows "map2 (+) (map ((*) 1) xs) (map2 (*) zs xs) = xs"
  using assms by (induction zs xs rule: list_induct2) simp_all

lemma edge_term_alpha_zero:
  assumes a: "alpha self = 0"
    and c: "criterion self pred_affs_j target_affs_j = Inr loss_j"
    and wl: "wf_tensor loss_j" and wm: "wf_tensor mask_aff_j"
    and sh: "broadcast_shapes (shape mask_aff_j) (shape loss_j) = Some (shape loss_j)"
  shows "edge_term self pred_affs_j target_affs_j mask_aff_j = Inr (tensor_mean loss_j)"
proof -
  let ?m0 = "tensor_map ((*) 0) mask_aff_j"
  obtain m' where m': "broadcast_to (shape loss_j) ?m0 = Inr m'"
    using broadcast_to_succeeds [of ?m0 "shape loss_j" "shape loss_j"] wm sh by auto
  have "set (entries m') \<subseteq> set (entries ?m0)"
    using m' unfolding broadcast_to_def by (rule gather_entries_subset)
  then have z: "set (entries m') \<subseteq> {0}" by auto
  have len: "length (entries m') = length (entries loss_j)"
    using m' wl unfolding broadcast_to_def by (simp add: gather_length wf_tensor_def)
  let ?z = "\<lparr>shape = shape loss_j, entries = map2 (*) (entries m') (entries loss_j)\<rparr>"
  have t2: "tensor_binop (*) ?m0 loss_j = Inr ?z"
    using sh by (simp add: tensor_binop_def m' broadcast_to_same [OF wl])
  have wz: "wf_tensor ?z"
    using wl len by (simp add: wf_tensor_def)
  have "tensor_binop (+) (tensor_map ((*) 1) loss_j) ?z =
        Inr \<lparr>shape = shape loss_j,
             entries = map2 (+) (map ((*) 1) (entries loss_j)) (entries ?z)\<rparr>"
    using tensor_binop_same_shape [of "tensor_map ((*) 1) loss_j" ?z "(+)"] wl wz by simp
  also have "\<dots> = Inr loss_j"
    using map2_add_zeros [OF len z] by simp
  finally show ?thesis
    by (simp add: edge_term_def c a t2)
qed

end
